theory Spec2Isabelle
  imports Complex_Main "HOL-Library.Sublist" "HOL-Library.AList" "HOL-Library.Log_Nat"
begin

section \<open>Shift dashboard (docs/app.js): reconciliation, classification, leave requests\<close>

text \<open>
  The dashboard script keeps its state in module variables (\<open>allGiornate\<close>,
  \<open>allLicenze\<close>, \<open>manualEntries\<close>) and mutates them in place. Here every function
  takes the state it reads as an argument and returns what it writes. JavaScript values
  are modelled as follows.
  \<^item> A string is a \<open>string\<close>; a property that may be \<open>null\<close>, \<open>undefined\<close> or missing
    is a \<open>string option\<close> with \<open>None\<close> for all three (the script never tells them
    apart: it only tests truthiness and compares with \<open>===\<close> against strings).
  \<^item> An object used as a dictionary (\<open>manualEntries\<close>, \<open>licenzeByKey\<close>,
    \<open>pendingByDate\<close>) is an association list with distinct keys, in the order
    \<open>Object.entries\<close> enumerates it. Only own properties are modelled, except in
    the lookup of a status in \<open>statoPriority\<close>, where the inherited members are too.
  \<^item> A number is a \<open>rat\<close> (every finite double is one); where the script computes
    with numbers that need not be whole, the rounding of doubles is written out.
\<close>

subsection \<open>Strings\<close>

text \<open>\<open>String.prototype.toLowerCase\<close> on the ASCII letters; the patterns the script
  searches for are ASCII, lower case.\<close>

definition toLowerCase_char :: "char \<Rightarrow> char" where
  "toLowerCase_char c =
     (let n = (of_char c :: nat) in if 65 \<le> n \<and> n \<le> 90 then char_of (n + 32) else c)"

definition toLowerCase :: "string \<Rightarrow> string" where
  "toLowerCase s = map toLowerCase_char s"

text \<open>\<open>s.includes(p)\<close>: \<open>p\<close> occurs in \<open>s\<close> as a contiguous block.\<close>

definition str_includes :: "string \<Rightarrow> string \<Rightarrow> bool" where
  "str_includes s p = sublist p s"

text \<open>\<open>s.startsWith(p)\<close>.\<close>

definition startsWith :: "string \<Rightarrow> string \<Rightarrow> bool" where
  "startsWith s p = prefix p s"

subsection \<open>Classification of the detail text (lines 34-70)\<close>

definition getAssenzaAbbr :: "string option \<Rightarrow> string" where
  "getAssenzaAbbr dettaglio =
     (case dettaglio of
        None \<Rightarrow> ''Riposo''
      | Some s \<Rightarrow>
          if s = [] then ''Riposo''
          else let d = toLowerCase s in
            if str_includes d ''riposo settimanale'' then ''RS''
            else if str_includes d ''riposo festivita'' then ''RF''
            else if str_includes d ''recupero'' \<and> str_includes d ''riposo''
                    \<and> str_includes d ''settimanale'' then ''RRS''
            else if str_includes d ''recupero'' \<and> str_includes d ''riposo''
                    \<and> str_includes d ''festivita'' then ''RRF''
            else if str_includes d ''recupero'' \<and> str_includes d ''ore'' then ''RO''
            else if str_includes d ''licenza ordinaria'' then ''LO''
            else if str_includes d ''licenza straordinaria'' then ''LS''
            else ''Riposo'')"

definition getPresenzaAbbr :: "string option \<Rightarrow> string" where
  "getPresenzaAbbr dettaglio =
     (case dettaglio of
        None \<Rightarrow> ''Servizio''
      | Some s \<Rightarrow>
          if s = [] then ''Servizio''
          else let d = toLowerCase s in
            if str_includes d ''esterno'' then ''Esterno''
            else if str_includes d ''operativ'' then ''Operativo''
            else if str_includes d ''istituzional'' then ''Istituz.''
            else if str_includes d ''pratiche'' \<or> str_includes d ''disbrigo''
                    \<or> str_includes d ''ufficio'' then ''Ufficio''
            else ''Servizio'')"

definition getAssenzaLabel :: "string option \<Rightarrow> string" where
  "getAssenzaLabel dettaglio =
     (case dettaglio of
        None \<Rightarrow> ''Riposo''
      | Some s \<Rightarrow>
          if s = [] then ''Riposo''
          else let d = toLowerCase s in
            if str_includes d ''riposo settimanale'' then ''Riposo Settimanale''
            else if str_includes d ''riposo festivita'' then ''Riposo Festivita'' @ [CHR 0x27]
            else if str_includes d ''recupero'' \<and> str_includes d ''riposo''
                    \<and> str_includes d ''settimanale'' then ''Rec. Riposo Sett.''
            else if str_includes d ''recupero'' \<and> str_includes d ''riposo''
                    \<and> str_includes d ''festivita'' then ''Rec. Riposo Fest.''
            else if str_includes d ''recupero'' \<and> str_includes d ''ore'' then ''Recupero Ore''
            else if str_includes d ''licenza ordinaria'' then ''Licenza Ordinaria''
            else if str_includes d ''licenza straordinaria'' then ''Licenza Straord.''
            else ''Riposo'')"

text \<open>The codes and labels each classifier can return.\<close>

definition assenza_codes :: "string list" where
  "assenza_codes = [''Riposo'', ''RS'', ''RF'', ''RRS'', ''RRF'', ''RO'', ''LO'', ''LS'']"

definition presenza_codes :: "string list" where
  "presenza_codes = [''Servizio'', ''Esterno'', ''Operativo'', ''Istituz.'', ''Ufficio'']"

subsection \<open>Day records and shifts\<close>

text \<open>
  A shift (an element of \<open>turni\<close>) and a day record (an element of \<open>giornate\<close>), with
  the properties the script reads or writes. A missing number is \<open>0\<close>: the script
  reads the hour fields as \<open>x || 0\<close> or compares them with \<open>> 0\<close>. A missing
  \<open>turni\<close> is the empty list: the script reads it as \<open>g.turni || []\<close> or
  \<open>g.turni?.[0]\<close>.
\<close>

record turno =
  t_id :: string
  t_tipo :: "string option"
  t_dettaglio :: "string option"
  t_matricola :: string
  t_data :: "string option"
  ora_inizio :: "string option"
  ora_fine :: "string option"
  durata_ore :: rat
  is_straordinario :: bool
  t_ore_ordinarie :: rat
  t_ore_straordinario :: rat
  email_date :: string
  email_id :: string
  t_stato :: "string option"

record giornata =
  data :: "string option"
  turni :: "turno list"
  ore_totali :: rat
  ore_ordinarie :: rat
  ore_straordinario :: rat
  is_licenza :: bool
  tipo_licenza :: string
  isManual :: bool

subsection \<open>Reconciliation of the feed with the manual entries (lines 170-182)\<close>

text \<open>
  \<open>mergeManualEntries\<close> walks \<open>Object.entries(manualEntries)\<close>; for each key it
  looks for a day of \<open>allGiornate\<close> whose \<open>data\<close> is the key (\<open>===\<close>, so a missing
  date matches no key) and pushes the entry when there is none. The push is visible
  to the searches for the later keys.
\<close>

fun mergeManualEntries :: "giornata list \<Rightarrow> (string \<times> giornata) list \<Rightarrow> giornata list" where
  "mergeManualEntries allGiornate [] = allGiornate"
| "mergeManualEntries allGiornate ((dateStr, entry) # rest) =
     (case find (\<lambda>g. data g = Some dateStr) allGiornate of
        None \<Rightarrow> mergeManualEntries (allGiornate @ [entry]) rest
      | Some existing \<Rightarrow> mergeManualEntries allGiornate rest)"

text \<open>\<open>isManualEntry\<close>: \<open>manualEntries.hasOwnProperty(dateStr)\<close>.\<close>

definition isManualEntry :: "(string \<times> giornata) list \<Rightarrow> string \<Rightarrow> bool" where
  "isManualEntry manualEntries dateStr = (map_of manualEntries dateStr \<noteq> None)"

text \<open>
  The override store as the data model describes it: an object (its keys are
  distinct) in which every record is stored under its own date. \<open>saveManualEntry\<close>
  is the only writer and stores \<open>giornata\<close> with \<open>data: dateStr\<close> under \<open>dateStr\<close>.
\<close>

definition store_ok :: "(string \<times> giornata) list \<Rightarrow> bool" where
  "store_ok manualEntries =
     (distinct (map fst manualEntries) \<and> list_all (\<lambda>(k, e). data e = Some k) manualEntries)"

text \<open>The dates of a sequence of day records, in order; a record without a date has none.\<close>

definition dates :: "giornata list \<Rightarrow> string list" where
  "dates gs = concat (map (\<lambda>g. case data g of None \<Rightarrow> [] | Some d \<Rightarrow> [d]) gs)"

text \<open>Day records used in the examples.\<close>

definition day :: "string option \<Rightarrow> rat \<Rightarrow> giornata" where
  "day d h = \<lparr>data = d, turni = [], ore_totali = h, ore_ordinarie = h,
     ore_straordinario = 0, is_licenza = False, tipo_licenza = [], isManual = False\<rparr>"


subsection \<open>Leave requests: deduplication (lines 612-625) and pending alert (lines 676-701)\<close>

text \<open>
  One status record of a leave request. \<open>tipo\<close> and \<open>stato\<close> are strings as the feed
  gives them; \<open>data_inizio\<close> and \<open>data_fine\<close> may be missing, and the script tests
  both for truthiness.
\<close>

record licenza =
  tipo :: string
  data_inizio :: "string option"
  data_fine :: "string option"
  stato :: string

definition statoPriority :: "(string \<times> nat) list" where
  "statoPriority = [(''Approvata'', 5), (''Rifiutata'', 4), (''Annullata'', 3),
     (''Validata'', 2), (''Presentata'', 1)]"

text \<open>
  \<open>statoPriority\<close> is an object literal, so \<open>statoPriority[l.stato]\<close> also finds the
  members it inherits from \<open>Object.prototype\<close> (ECMAScript, with Annex B). The value
  read is a number of the table, an inherited function or object, or \<open>undefined\<close>.
\<close>

definition Object_prototype :: "string list" where
  "Object_prototype = [''constructor'', ''hasOwnProperty'', ''isPrototypeOf'',
     ''propertyIsEnumerable'', ''toLocaleString'', ''toString'', ''valueOf'', ''__proto__'',
     ''__defineGetter__'', ''__defineSetter__'', ''__lookupGetter__'', ''__lookupSetter__'']"

datatype jsvalue = Num nat | Inherited | Undefined

definition statoPriority_at :: "string \<Rightarrow> jsvalue" where
  "statoPriority_at s =
     (case map_of statoPriority s of
        Some p \<Rightarrow> Num p
      | None \<Rightarrow> if s \<in> set Object_prototype then Inherited else Undefined)"

text \<open>\<open>v || 0\<close>: an inherited member is truthy and stays; \<open>undefined\<close> and \<open>0\<close> give
  \<open>0\<close>.\<close>

definition or_zero :: "jsvalue \<Rightarrow> jsvalue" where
  "or_zero v = (case v of Num p \<Rightarrow> Num p | Inherited \<Rightarrow> Inherited | Undefined \<Rightarrow> Num 0)"

text \<open>\<open>a > b\<close>: a function or an object converts to \<open>NaN\<close>, and every comparison with
  \<open>NaN\<close> is false.\<close>

definition js_gt :: "jsvalue \<Rightarrow> jsvalue \<Rightarrow> bool" where
  "js_gt a b = (case (a, b) of (Num x, Num y) \<Rightarrow> y < x | _ \<Rightarrow> False)"

text \<open>
  One round of the \<open>forEach\<close> of \<open>renderLicenze\<close>: a record without a start date is
  skipped; the key is the template string \<open>tipo_data_inizio\<close>; the record is stored
  when the key is new or its status compares greater than the stored one's.
  Assigning to an existing key keeps the key's place in the object. The lookup of the
  key itself is modelled on own properties: a key is the name of an inherited member
  only when the start date contains \<open>_\<close>.
\<close>

definition renderLicenze_step ::
  "(string \<times> licenza) list \<Rightarrow> licenza \<Rightarrow> (string \<times> licenza) list" where
  "renderLicenze_step licenzeByKey l =
     (case data_inizio l of
        None \<Rightarrow> licenzeByKey
      | Some d \<Rightarrow>
          if d = [] then licenzeByKey
          else let key = tipo l @ ''_'' @ d in
            (case map_of licenzeByKey key of
               None \<Rightarrow> AList.update key l licenzeByKey
             | Some existing \<Rightarrow>
                 if js_gt (or_zero (statoPriority_at (stato l)))
                      (or_zero (statoPriority_at (stato existing)))
                 then AList.update key l licenzeByKey
                 else licenzeByKey))"

definition renderLicenze_byKey :: "licenza list \<Rightarrow> (string \<times> licenza) list" where
  "renderLicenze_byKey allLicenze = foldl renderLicenze_step [] allLicenze"

text \<open>\<open>Object.values(licenzeByKey)\<close>: the requests that \<open>renderLicenze\<close> goes on with.\<close>

definition renderLicenze_values :: "licenza list \<Rightarrow> licenza list" where
  "renderLicenze_values allLicenze = map snd (renderLicenze_byKey allLicenze)"

text \<open>The statuses whose lookup in \<open>statoPriority\<close> finds no inherited member.\<close>

definition no_inherited :: "licenza list \<Rightarrow> bool" where
  "no_inherited allLicenze = list_all (\<lambda>l. stato l \<notin> set Object_prototype) allLicenze"

text \<open>
  The deduplication in the words of the specification, to compare with. Its order of
  the statuses is total: Approvata 5, Rifiutata 4, Annullata 3, Validata 2,
  Presentata 1, and every other status 0.
\<close>

definition priority :: "string \<Rightarrow> nat" where
  "priority s = (case map_of statoPriority s of None \<Rightarrow> 0 | Some p \<Rightarrow> p)"

text \<open>
  The rounds of the specification's deduplication: records are grouped under the key
  of their type and start date, a record without a start date belongs to no group,
  and a record replaces the stored one of its group when its priority is strictly
  higher, so that of equal priorities the first one met stays.
\<close>

definition dedup_step :: "(string \<times> licenza) list \<Rightarrow> licenza \<Rightarrow> (string \<times> licenza) list" where
  "dedup_step licenzeByKey l =
     (case data_inizio l of
        None \<Rightarrow> licenzeByKey
      | Some d \<Rightarrow>
          if d = [] then licenzeByKey
          else let key = tipo l @ ''_'' @ d in
            (case map_of licenzeByKey key of
               None \<Rightarrow> AList.update key l licenzeByKey
             | Some existing \<Rightarrow>
                 if priority (stato l) > priority (stato existing)
                 then AList.update key l licenzeByKey
                 else licenzeByKey))"

definition licenzeByKey :: "licenza list \<Rightarrow> (string \<times> licenza) list" where
  "licenzeByKey allLicenze = foldl dedup_step [] allLicenze"

text \<open>The deduplicated requests of the specification: one current record per key.\<close>

definition dedup_licenze :: "licenza list \<Rightarrow> licenza list" where
  "dedup_licenze allLicenze = map snd (licenzeByKey allLicenze)"

text \<open>
  Also in the words of the specification: the group of an identity key
  \<open>(leaveType, startDate)\<close> is the records with that type and start date, in input
  order; its current record is the first one whose priority none of the group
  exceeds.
\<close>

definition group_of :: "licenza list \<Rightarrow> string \<Rightarrow> string \<Rightarrow> licenza list" where
  "group_of allLicenze t d = filter (\<lambda>x. tipo x = t \<and> data_inizio x = Some d) allLicenze"

definition current_record :: "licenza list \<Rightarrow> licenza option" where
  "current_record g = find (\<lambda>x. \<forall>y \<in> set g. priority (stato y) \<le> priority (stato x)) g"

text \<open>The records that \<open>dedup_step\<close> files under the key \<open>k\<close>.\<close>

definition keyed :: "string \<Rightarrow> licenza \<Rightarrow> bool" where
  "keyed k x = (case data_inizio x of None \<Rightarrow> False | Some d \<Rightarrow> d \<noteq> [] \<and> tipo x @ ''_'' @ d = k)"

text \<open>Start dates are dates: the separator of the key does not occur in them.\<close>

definition dates_wf :: "licenza list \<Rightarrow> bool" where
  "dates_wf allLicenze =
     list_all (\<lambda>x. case data_inizio x of None \<Rightarrow> True | Some d \<Rightarrow> CHR ''_'' \<notin> set d) allLicenze"

text \<open>\<open>checkPendingLicenze\<close>. The statuses it tests for:\<close>

definition isPending :: "string \<Rightarrow> bool" where
  "isPending s = (s = ''Presentata'' \<or> s = ''Validata'')"

definition isResolved :: "string \<Rightarrow> bool" where
  "isResolved s = (s = ''Approvata'' \<or> s = ''Annullata'' \<or> s = ''Rifiutata'')"

definition hasResolved :: "licenza list \<Rightarrow> licenza \<Rightarrow> bool" where
  "hasResolved allLicenze l =
     list_ex (\<lambda>x. tipo x = tipo l \<and> data_inizio x = data_inizio l \<and> isResolved (stato x))
       allLicenze"

definition pending_step ::
  "licenza list \<Rightarrow> (string \<times> licenza) list \<Rightarrow> licenza \<Rightarrow> (string \<times> licenza) list" where
  "pending_step allLicenze pendingByDate l =
     (case data_inizio l of
        None \<Rightarrow> pendingByDate
      | Some d \<Rightarrow>
          if isPending (stato l) \<and> d \<noteq> [] then
            (if \<not> hasResolved allLicenze l
             then AList.update (tipo l @ ''_'' @ d) l pendingByDate
             else pendingByDate)
          else pendingByDate)"

definition pendingByDate :: "licenza list \<Rightarrow> (string \<times> licenza) list" where
  "pendingByDate allLicenze = foldl (pending_step allLicenze) [] allLicenze"

text \<open>The alert: \<open>Some n\<close> when it is shown with the count \<open>n\<close>, \<open>None\<close> when it is
  hidden.\<close>

definition checkPendingLicenze :: "licenza list \<Rightarrow> nat option" where
  "checkPendingLicenze allLicenze =
     (let pending = length (pendingByDate allLicenze)
      in if pending > 0 then Some pending else None)"

text \<open>A leave request of the examples: type, start date, status.\<close>

definition req :: "string \<Rightarrow> string \<Rightarrow> string \<Rightarrow> licenza" where
  "req t d st = \<lparr>tipo = t, data_inizio = Some d, data_fine = None, stato = st\<rparr>"


subsection \<open>Views of a day: list item, day detail, export\<close>

text \<open>\<open>Array.prototype.sort\<close> with a comparator: stable; \<open>x\<close> goes before \<open>y\<close> when
  the comparator is not positive.\<close>

fun insort_cmp :: "('a \<Rightarrow> 'a \<Rightarrow> int) \<Rightarrow> 'a \<Rightarrow> 'a list \<Rightarrow> 'a list" where
  "insort_cmp cmp x [] = [x]"
| "insort_cmp cmp x (y # ys) = (if cmp x y \<le> 0 then x # y # ys else y # insort_cmp cmp x ys)"

definition sort_cmp :: "('a \<Rightarrow> 'a \<Rightarrow> int) \<Rightarrow> 'a list \<Rightarrow> 'a list" where
  "sort_cmp cmp xs = foldr (insort_cmp cmp) xs []"

text \<open>\<open>s || ''\<close>.\<close>

definition or_empty :: "string option \<Rightarrow> string" where
  "or_empty v = (case v of None \<Rightarrow> [] | Some s \<Rightarrow> s)"

text \<open>
  The view model of \<open>renderGiornataItem\<close> (lines 332-391): the values the template
  prints. \<open>orario\<close> is empty, a label, or the start of the first and the end of the
  last shift in the order of \<open>ora_inizio\<close>. The collation \<open>localeCompare\<close> belongs to
  the host and is a parameter. In the last branch \<open>turni\<close> is not empty, and neither
  is its sorted copy.
\<close>

datatype orario = NoOrario | Label string | Range "string option" "string option"

record item =
  tipoBadge :: string
  tipoBadgeClass :: string
  tipoClass :: string
  item_orario :: orario
  straordHours :: rat

definition renderGiornataItem :: "(string \<Rightarrow> string \<Rightarrow> int) \<Rightarrow> giornata \<Rightarrow> item" where
  "renderGiornataItem localeCompare g =
     (let straord = ore_straordinario g in
      if is_licenza g then
        \<lparr>tipoBadge = ''LO'', tipoBadgeClass = ''riposo'', tipoClass = ''riposo'',
         item_orario = Label ''Licenza'', straordHours = straord\<rparr>
      else
        (case turni g of
           [] \<Rightarrow> \<lparr>tipoBadge = [], tipoBadgeClass = [], tipoClass = [],
                  item_orario = NoOrario, straordHours = straord\<rparr>
         | turno # _ \<Rightarrow>
             if t_tipo turno = Some ''ASSENZA'' then
               \<lparr>tipoBadge = getAssenzaAbbr (t_dettaglio turno), tipoBadgeClass = ''riposo'',
                tipoClass = ''riposo'', item_orario = Label (getAssenzaLabel (t_dettaglio turno)),
                straordHours = straord\<rparr>
             else
               (let sorted = sort_cmp (\<lambda>a b. localeCompare (or_empty (ora_inizio a))
                                                (or_empty (ora_inizio b))) (turni g)
                in \<lparr>tipoBadge = getPresenzaAbbr (t_dettaglio turno), tipoBadgeClass = [],
                     tipoClass = [],
                     item_orario = Range (ora_inizio (hd sorted)) (ora_fine (last sorted)),
                     straordHours = straord\<rparr>)))"

text \<open>
  The day's part of \<open>showDayDetail\<close> (lines 523-560): only the shifts that are not
  \<open>eliminato\<close> are read. The result is the label of an absence, or the shifts listed
  and the three totals as stored (the script prints them through \<open>formatNumber\<close>,
  with one decimal).
\<close>

definition turniAttivi :: "giornata \<Rightarrow> turno list" where
  "turniAttivi giornata = filter (\<lambda>t. t_stato t \<noteq> Some ''eliminato'') (turni giornata)"

datatype detail = TipoDetail string | TurniDetail "turno list" rat rat rat

definition showDayDetail :: "giornata \<Rightarrow> detail" where
  "showDayDetail giornata =
     (case turniAttivi giornata of
        [] \<Rightarrow> TurniDetail [] (ore_totali giornata) (ore_ordinarie giornata)
                (ore_straordinario giornata)
      | t # ts \<Rightarrow>
          if t_tipo t = Some ''ASSENZA'' then TipoDetail (getAssenzaLabel (t_dettaglio t))
          else TurniDetail (t # ts) (ore_totali giornata) (ore_ordinarie giornata)
                 (ore_straordinario giornata))"

text \<open>The modal \<open>showGiornataDetails\<close> (lines 762-811) reads \<open>turni\<close> as it is; the
  totals are again the stored ones, before \<open>formatNumber\<close>.\<close>

definition showGiornataDetails :: "giornata \<Rightarrow> detail" where
  "showGiornataDetails giornata =
     (case turni giornata of
        [] \<Rightarrow> TurniDetail [] (ore_totali giornata) (ore_ordinarie giornata)
                (ore_straordinario giornata)
      | t # ts \<Rightarrow>
          if t_tipo t = Some ''ASSENZA'' then TipoDetail (getAssenzaLabel (t_dettaglio t))
          else TurniDetail (t # ts) (ore_totali giornata) (ore_ordinarie giornata)
                 (ore_straordinario giornata))"

text \<open>A row of \<open>exportCSV\<close> (lines 849-857) without its weekday column, which only
  depends on the date: the type is \<open>g.turni?.[0]?.tipo || 'N/D'\<close>.\<close>

record csv_row =
  row_data :: "string option"
  row_tipo :: string
  row_ore_totali :: rat
  row_ore_ordinarie :: rat
  row_ore_straordinario :: rat

definition exportCSV_row :: "giornata \<Rightarrow> csv_row" where
  "exportCSV_row g =
     \<lparr>row_data = data g,
      row_tipo = (case turni g of
                    [] \<Rightarrow> ''N/D''
                  | t # _ \<Rightarrow> (case t_tipo t of None \<Rightarrow> ''N/D''
                               | Some s \<Rightarrow> if s = [] then ''N/D'' else s)),
      row_ore_totali = ore_totali g,
      row_ore_ordinarie = ore_ordinarie g,
      row_ore_straordinario = ore_straordinario g\<rparr>"

definition exportCSV :: "giornata list \<Rightarrow> csv_row list" where
  "exportCSV allGiornate = map exportCSV_row allGiornate"

text \<open>A day of the examples: an absence that was removed upstream, replaced by a
  service from 08:00 to 14:00.\<close>

definition shift :: "string \<Rightarrow> string \<Rightarrow> string \<Rightarrow> string \<Rightarrow> rat \<Rightarrow> string \<Rightarrow> turno" where
  "shift ty det start fin dur st =
     \<lparr>t_id = [], t_tipo = Some ty, t_dettaglio = Some det, t_matricola = [],
      t_data = Some ''2025-03-01'', ora_inizio = Some start, ora_fine = Some fin,
      durata_ore = dur, is_straordinario = False, t_ore_ordinarie = dur,
      t_ore_straordinario = 0, email_date = [], email_id = [], t_stato = Some st\<rparr>"

definition corrected_day :: giornata where
  "corrected_day =
     \<lparr>data = Some ''2025-03-01'',
      turni = [shift ''ASSENZA'' ''Riposo settimanale'' ''00:00'' ''23:59'' 0 ''eliminato'',
               shift ''PRESENZA'' ''Servizio esterno'' ''08:00'' ''14:00'' 6 ''attivo''],
      ore_totali = 6, ore_ordinarie = 6, ore_straordinario = 0,
      is_licenza = False, tipo_licenza = [], isManual = False\<rparr>"

subsection \<open>Dates\<close>

text \<open>
  \<open>new Date(s)\<close> for a date-only string \<open>YYYY-MM-DD\<close> is midnight UTC of that day
  (ECMAScript, Date Time String Format); the time value is the day number times
  \<open>msPerDay\<close>, with the day number as ECMAScript defines it. What \<open>new Date\<close> makes
  of any other string is left to the host: \<open>None\<close> stands for an invalid date, whose
  time value is \<open>NaN\<close>.
\<close>

definition digit_val :: "char \<Rightarrow> nat option" where
  "digit_val c = (let n = (of_char c :: nat) in if 48 \<le> n \<and> n \<le> 57 then Some (n - 48) else None)"

definition InLeapYear :: "nat \<Rightarrow> bool" where
  "InLeapYear y = (y mod 4 = 0 \<and> (y mod 100 \<noteq> 0 \<or> y mod 400 = 0))"

definition DaysInMonth :: "nat \<Rightarrow> nat \<Rightarrow> nat" where
  "DaysInMonth y m =
     (if m = 2 then (if InLeapYear y then 29 else 28)
      else if m = 4 \<or> m = 6 \<or> m = 9 \<or> m = 11 then 30 else 31)"

fun iso_date :: "string \<Rightarrow> (nat \<times> nat \<times> nat) option" where
  "iso_date [y1, y2, y3, y4, s1, m1, m2, s2, d1, d2] =
     (if s1 = CHR ''-'' \<and> s2 = CHR ''-'' then
        (case those (map digit_val [y1, y2, y3, y4, m1, m2, d1, d2]) of
           Some [a, b, c, e, f, g, h, i] \<Rightarrow>
             (let y = 1000 * a + 100 * b + 10 * c + e; m = 10 * f + g; d = 10 * h + i
              in if 1 \<le> m \<and> m \<le> 12 \<and> 1 \<le> d \<and> d \<le> DaysInMonth y m then Some (y, m, d)
                 else None)
         | _ \<Rightarrow> None)
      else None)"
| "iso_date _ = None"

definition DayFromYear :: "int \<Rightarrow> int" where
  "DayFromYear y =
     365 * (y - 1970) + (y - 1969) div 4 - (y - 1901) div 100 + (y - 1601) div 400"

definition DayWithinYear :: "nat \<Rightarrow> nat \<Rightarrow> nat \<Rightarrow> int" where
  "DayWithinYear y m d =
     int ([0, 31, 59, 90, 120, 151, 181, 212, 243, 273, 304, 334] ! (m - 1))
       + (if InLeapYear y \<and> m > 2 then 1 else 0) + (int d - 1)"

definition day_number :: "nat \<times> nat \<times> nat \<Rightarrow> int" where
  "day_number ymd = (case ymd of (y, m, d) \<Rightarrow> DayFromYear (int y) + DayWithinYear y m d)"

definition msPerDay :: int where
  "msPerDay = 1000 * 60 * 60 * 24"

definition Date_ms :: "(string \<Rightarrow> int option) \<Rightarrow> string \<Rightarrow> int option" where
  "Date_ms host s =
     (case iso_date s of Some ymd \<Rightarrow> Some (day_number ymd * msPerDay) | None \<Rightarrow> host s)"

text \<open>\<open>String(n)\<close> for a natural number: its decimal digits.\<close>

fun String_nat :: "nat \<Rightarrow> string" where
  "String_nat n =
     (if n < 10 then [char_of (48 + n)] else String_nat (n div 10) @ [char_of (48 + n mod 10)])"

declare String_nat.simps [simp del]

subsection \<open>Leave balance of the year (lines 1038-1076)\<close>

text \<open>
  The part of \<open>updateSettingsInfo\<close> that counts the leave days. \<open>thisYear\<close> is
  \<open>new Date().getFullYear()\<close>. The requests that are ordinary, approved and whose
  start date starts with the year are filed under their start date, the first one
  winning; each filed request adds the days between start and end plus one, or one
  day without an end date. The quotient by \<open>msPerDay\<close> is exact here, as it is in
  doubles for time values of whole days.
\<close>

definition isOrdinariaApprovata :: "nat \<Rightarrow> licenza \<Rightarrow> bool" where
  "isOrdinariaApprovata thisYear l =
     (tipo l = ''ordinaria'' \<and> stato l = ''Approvata''
      \<and> (case data_inizio l of None \<Rightarrow> False | Some d \<Rightarrow> startsWith d (String_nat thisYear)))"

definition byDate_step :: "(string \<times> licenza) list \<Rightarrow> licenza \<Rightarrow> (string \<times> licenza) list" where
  "byDate_step licenzeByDate l =
     (case data_inizio l of
        None \<Rightarrow> licenzeByDate
      | Some d \<Rightarrow>
          (case map_of licenzeByDate d of
             None \<Rightarrow> AList.update d l licenzeByDate
           | Some existing \<Rightarrow> licenzeByDate))"

definition licenzeByDate :: "nat \<Rightarrow> licenza list \<Rightarrow> (string \<times> licenza) list" where
  "licenzeByDate thisYear allLicenze =
     foldl byDate_step [] (filter (isOrdinariaApprovata thisYear) allLicenze)"

text \<open>The days one request adds to \<open>giorniUsati\<close>; \<open>None\<close> is \<open>NaN\<close>.\<close>

definition diffDays :: "(string \<Rightarrow> int option) \<Rightarrow> licenza \<Rightarrow> int option" where
  "diffDays host l =
     (case data_inizio l of
        None \<Rightarrow> Some 0
      | Some s \<Rightarrow>
          if s = [] then Some 0
          else (case data_fine l of
                  None \<Rightarrow> Some 1
                | Some e \<Rightarrow>
                    if e = [] then Some 1
                    else (case (Date_ms host s, Date_ms host e) of
                            (Some start, Some end) \<Rightarrow>
                               Some (\<lceil>(of_int \<bar>end - start\<bar> :: rat) / of_int msPerDay\<rceil> + 1)
                          | _ \<Rightarrow> None)))"

definition add_days :: "int option \<Rightarrow> int option \<Rightarrow> int option" where
  "add_days a b = (case (a, b) of (Some x, Some y) \<Rightarrow> Some (x + y) | _ \<Rightarrow> None)"

definition giorniUsati :: "(string \<Rightarrow> int option) \<Rightarrow> nat \<Rightarrow> licenza list \<Rightarrow> int option" where
  "giorniUsati host thisYear allLicenze =
     foldl (\<lambda>used l. add_days used (diffDays host l)) (Some 0)
       (map snd (licenzeByDate thisYear allLicenze))"

definition giorniRimanenti ::
  "(string \<Rightarrow> int option) \<Rightarrow> nat \<Rightarrow> int \<Rightarrow> licenza list \<Rightarrow> int option" where
  "giorniRimanenti host thisYear giorniLicenzaAnnuale allLicenze =
     (case giorniUsati host thisYear allLicenze of
        None \<Rightarrow> None
      | Some used \<Rightarrow> Some (giorniLicenzaAnnuale - used))"


text \<open>
  The words of the specification, to compare with: a request is counted when it is
  approved, of the ordinary type, and its start date lies in the year; it counts the
  days from its start to its end, both included, and one day when it has no end.
\<close>

definition approved_ordinary :: "licenza \<Rightarrow> bool" where
  "approved_ordinary l = (tipo l = ''ordinaria'' \<and> stato l = ''Approvata'')"

definition start_year :: "licenza \<Rightarrow> nat option" where
  "start_year l =
     (case data_inizio l of None \<Rightarrow> None | Some d \<Rightarrow> map_option fst (iso_date d))"

definition inclusive_days :: "licenza \<Rightarrow> int" where
  "inclusive_days l =
     (case data_inizio l of
        None \<Rightarrow> 0
      | Some s \<Rightarrow>
          (case data_fine l of
             None \<Rightarrow> 1
           | Some e \<Rightarrow>
               if e = [] then 1
               else (case (iso_date s, iso_date e) of
                       (Some a, Some b) \<Rightarrow> \<bar>day_number b - day_number a\<bar> + 1
                     | _ \<Rightarrow> 0)))"

text \<open>The dates of the requests are calendar dates \<open>YYYY-MM-DD\<close> where present.\<close>

definition iso_wf :: "licenza list \<Rightarrow> bool" where
  "iso_wf allLicenze =
     list_all (\<lambda>l. (case data_inizio l of None \<Rightarrow> True | Some d \<Rightarrow> d = [] \<or> iso_date d \<noteq> None)
                 \<and> (case data_fine l of None \<Rightarrow> True | Some e \<Rightarrow> e = [] \<or> iso_date e \<noteq> None))
       allLicenze"

text \<open>The first ordinary approved request with the start date \<open>d\<close> is the one
  both deduplications keep.\<close>

definition ord_appr :: "string \<Rightarrow> licenza \<Rightarrow> bool" where
  "ord_appr d x = (tipo x = ''ordinaria'' \<and> stato x = ''Approvata'' \<and> data_inizio x = Some d)"

text \<open>A leave request with an end date, for the examples.\<close>

definition leave :: "string \<Rightarrow> string \<Rightarrow> string \<Rightarrow> string \<Rightarrow> licenza" where
  "leave t s e st = \<lparr>tipo = t, data_inizio = Some s, data_fine = Some e, stato = st\<rparr>"

subsection \<open>Doubles\<close>

text \<open>
  The arithmetic of \<open>saveManualEntry\<close> is the arithmetic of doubles: the exact
  result of an operation, rounded to the nearest number with a significand of 53
  bits, ties to the even one (\<open>fl\<close>). The range of the exponent is not modelled
  (no overflow, no subnormal numbers): the numbers of the script are zero or lie
  between \<open>2 ^ -7\<close> and \<open>2 ^ 13\<close>. \<open>exponent x\<close> is the integer \<open>e\<close> with
  \<open>2 ^ e \<le> x < 2 ^ (e + 1)\<close> for a positive \<open>x\<close>. \<open>Math.round\<close> rounds to the
  nearest integer, a tie upwards.
\<close>

definition pow2 :: "int \<Rightarrow> rat" where
  "pow2 e = (if 0 \<le> e then 2 ^ nat e else 1 / 2 ^ nat (- e))"

definition exponent :: "rat \<Rightarrow> int" where
  "exponent x =
     (case quotient_of x of (p, q) \<Rightarrow>
        let k = bitlen p - bitlen q in if pow2 k \<le> x then k else k - 1)"

definition round_even :: "rat \<Rightarrow> int" where
  "round_even y =
     (let n = \<lfloor>y\<rfloor>; r = y - of_int n
      in if r < 1 / 2 then n else if 1 / 2 < r then n + 1 else if even n then n else n + 1)"

definition fl :: "rat \<Rightarrow> rat" where
  "fl x =
     (if x = 0 then 0
      else let u = pow2 (exponent \<bar>x\<bar> - 52) in of_int (round_even (x / u)) * u)"

definition Math_round :: "rat \<Rightarrow> int" where
  "Math_round x = \<lfloor>x + 1 / 2\<rfloor>"

definition round2 :: "rat \<Rightarrow> rat" where
  "round2 x = fl (of_int (Math_round (fl (x * 100))) / 100)"

subsection \<open>Manual entries (lines 905-976)\<close>

text \<open>
  The values of the form fields that \<open>saveManualEntry\<close> reads, and \<open>now\<close> for
  \<open>new Date().toISOString()\<close>.
\<close>

record form =
  addData :: string
  addTipo :: string
  addDettaglio :: string
  addAssenza :: string
  addOraInizio :: string
  addOraFine :: string
  now :: string

text \<open>\<open>s.split(':')\<close>.\<close>

fun split_colon :: "string \<Rightarrow> string list" where
  "split_colon [] = [[]]"
| "split_colon (c # cs) =
     (if c = CHR '':'' then [] # split_colon cs
      else (case split_colon cs of [] \<Rightarrow> [[c]] | p # ps \<Rightarrow> (c # p) # ps))"

text \<open>
  \<open>Number(s)\<close> on a string of decimal digits, as the value of a time field has
  them; the empty string is \<open>0\<close>. \<open>None\<close> on any other string: there the script
  goes on with \<open>NaN\<close> or with another number and stores an entry all the same,
  which this model does not follow.
\<close>

definition Number_str :: "string \<Rightarrow> nat option" where
  "Number_str s = map_option (foldl (\<lambda>n d. 10 * n + d) 0) (those (map digit_val s))"

text \<open>\<open>const [h, m] = s.split(':').map(Number)\<close>.\<close>

definition parse_time :: "string \<Rightarrow> (nat \<times> nat) option" where
  "parse_time s =
     (case split_colon s of
        h # m # rest \<Rightarrow>
          (case (Number_str h, Number_str m) of
             (Some a, Some b) \<Rightarrow> Some (a, b)
           | _ \<Rightarrow> None)
      | _ \<Rightarrow> None)"

text \<open>The minutes from start to end, over midnight when the end is earlier. They are
  whole numbers far below \<open>2 ^ 53\<close>, so the doubles hold them exactly.\<close>

definition minuti :: "nat \<times> nat \<Rightarrow> nat \<times> nat \<Rightarrow> int" where
  "minuti inizio fine =
     (case (inizio, fine) of ((hI, mI), (hF, mF)) \<Rightarrow>
        let minutiInizio = int hI * 60 + int mI;
            minutiFine = int hF * 60 + int mF;
            minutiFine = (if minutiFine < minutiInizio then minutiFine + 24 * 60 else minutiFine)
        in minutiFine - minutiInizio)"

text \<open>
  The day record that \<open>saveManualEntry\<close> builds. Every arithmetic operation on
  numbers that need not be whole is followed by the rounding \<open>fl\<close> to a double.
  The result is \<open>None\<close> exactly when a time field of an entry that is not an
  absence is not parsed (see \<open>Number_str\<close>).
\<close>

definition manual_giornata :: "form \<Rightarrow> giornata option" where
  "manual_giornata f =
     (let dateStr = addData f; isAssenza = (addTipo f = ''ASSENZA'') in
      (case (if isAssenza then Some (addAssenza f, ''00:00'', ''23:59'', 0, 0, 0)
             else (case (parse_time (addOraInizio f), parse_time (addOraFine f)) of
                     (Some inizio, Some fine) \<Rightarrow>
                       let durataOre = fl (of_int (minuti inizio fine) / 60);
                           oreOrdinarie = min durataOre 6;
                           oreStraordinario = max 0 (fl (durataOre - 6))
                       in Some (addDettaglio f, addOraInizio f, addOraFine f,
                                durataOre, oreOrdinarie, oreStraordinario)
                   | _ \<Rightarrow> None)) of
         None \<Rightarrow> None
       | Some (dettaglio, oraInizio, oraFine, durataOre, oreOrdinarie, oreStraordinario) \<Rightarrow>
           Some \<lparr>data = Some dateStr,
                 turni = [\<lparr>t_id = dateStr @ ''_manual'', t_tipo = Some (addTipo f),
                           t_dettaglio = Some dettaglio, t_matricola = ''000000'',
                           t_data = Some dateStr, ora_inizio = Some oraInizio,
                           ora_fine = Some oraFine, durata_ore = round2 durataOre,
                           is_straordinario = (oreStraordinario > 0),
                           t_ore_ordinarie = round2 oreOrdinarie,
                           t_ore_straordinario = round2 oreStraordinario,
                           email_date = now f, email_id = ''manual_entry'',
                           t_stato = Some ''attivo''\<rparr>],
                 ore_totali = round2 durataOre,
                 ore_ordinarie = round2 oreOrdinarie,
                 ore_straordinario = round2 oreStraordinario,
                 is_licenza = False, tipo_licenza = [], isManual = True\<rparr>))"

text \<open>\<open>manualEntries[dateStr] = giornata\<close>.\<close>

definition saveManualEntry ::
  "form \<Rightarrow> (string \<times> giornata) list \<Rightarrow> (string \<times> giornata) list option" where
  "saveManualEntry f manualEntries =
     map_option (\<lambda>giornata. AList.update (addData f) giornata manualEntries) (manual_giornata f)"

text \<open>\<open>deleteManualEntry\<close>, once confirmed: \<open>delete manualEntries[dateStr]\<close>.\<close>

definition deleteManualEntry :: "string \<Rightarrow> (string \<times> giornata) list \<Rightarrow> (string \<times> giornata) list" where
  "deleteManualEntry dateStr manualEntries = AList.delete dateStr manualEntries"

text \<open>A service entered by hand, for the examples.\<close>

definition presenza :: "string \<Rightarrow> string \<Rightarrow> form" where
  "presenza start fin =
     \<lparr>addData = ''2025-03-01'', addTipo = ''PRESENZA'', addDettaglio = ''Servizio esterno'',
      addAssenza = ''Riposo settimanale'', addOraInizio = start, addOraFine = fin,
      now = ''2025-03-02T10:00:00.000Z''\<rparr>"

text \<open>
  The words of the claim, to compare with: the duration in hundredths of an hour,
  computed exactly and rounded to the next whole number, a tie upwards.
\<close>

definition centesimi :: "nat \<times> nat \<Rightarrow> nat \<times> nat \<Rightarrow> int" where
  "centesimi inizio fine = Math_round (of_int (minuti inizio fine) * 100 / 60)"

section \<open>Theorems\<close>

subsection \<open>Classification\<close>

lemma getAssenzaAbbr_range: "getAssenzaAbbr v \<in> set assenza_codes"
  by (simp add: getAssenzaAbbr_def assenza_codes_def Let_def split: option.split)

lemma getPresenzaAbbr_range: "getPresenzaAbbr v \<in> set presenza_codes"
  by (simp add: getPresenzaAbbr_def presenza_codes_def Let_def split: option.split)

text \<open>
  A detail that contains the three words is never classified as recovery of hours: it
  leaves the chain at the third test at the latest, with one of the codes \<open>RS\<close>,
  \<open>RF\<close>, \<open>RRS\<close>.
\<close>

lemma getAssenzaAbbr_three_words:
  assumes "str_includes (toLowerCase s) ''recupero''"
    and "str_includes (toLowerCase s) ''riposo''"
    and "str_includes (toLowerCase s) ''settimanale''"
  shows "getAssenzaAbbr (Some s) \<in> {''RS'', ''RF'', ''RRS''}"
proof -
  from assms(1) have "s \<noteq> []"
    by (auto simp: str_includes_def toLowerCase_def)
  with assms show ?thesis
    by (simp add: getAssenzaAbbr_def Let_def)
qed

text \<open>
  C9. The classifiers are total over a string, \<open>null\<close> or \<open>undefined\<close>: every input
  has a result among the listed codes (no branch raises), and for a \<open>null\<close>,
  \<open>undefined\<close> or empty detail the absence classifier returns the generic rest
  code \<open>Riposo\<close> and the presence classifier the generic service code \<open>Servizio\<close>.
\<close>

theorem C9_classifiers_total_with_fallback:
  "getAssenzaAbbr None = ''Riposo'' \<and> getAssenzaAbbr (Some []) = ''Riposo''
   \<and> getPresenzaAbbr None = ''Servizio'' \<and> getPresenzaAbbr (Some []) = ''Servizio''
   \<and> (\<forall>v. getAssenzaAbbr v \<in> set assenza_codes)
   \<and> (\<forall>v. getPresenzaAbbr v \<in> set presenza_codes)"
  by (simp add: getAssenzaAbbr_range getPresenzaAbbr_range)
    (simp add: getAssenzaAbbr_def getPresenzaAbbr_def)

text \<open>
  C2. The detail \<open>recupero riposo settimanale\<close> contains the three words
  \<open>recupero\<close>, \<open>riposo\<close> and \<open>settimanale\<close>, yet the absence classifier returns the
  weekly rest code \<open>RS\<close> and label for it, not the recovered weekly rest code
  \<open>RRS\<close>: the test for the phrase \<open>riposo settimanale\<close> stands before the test for
  the three words and matches first.
\<close>

theorem C2_recupero_riposo_settimanale_is_RS:
  "str_includes (toLowerCase ''recupero riposo settimanale'') ''recupero''
   \<and> str_includes (toLowerCase ''recupero riposo settimanale'') ''riposo''
   \<and> str_includes (toLowerCase ''recupero riposo settimanale'') ''settimanale''
   \<and> getAssenzaAbbr (Some ''recupero riposo settimanale'') = ''RS''
   \<and> getAssenzaAbbr (Some ''recupero riposo settimanale'') \<noteq> ''RRS''
   \<and> getAssenzaLabel (Some ''recupero riposo settimanale'') = ''Riposo Settimanale''"
  by code_simp

subsection \<open>Reconciliation\<close>

lemma set_dates: "set (dates gs) = {d. Some d \<in> data ` set gs}"
  by (induction gs) (auto simp: dates_def split: option.splits)

lemma dates_append: "dates (xs @ ys) = dates xs @ dates ys"
  by (simp add: dates_def)

lemma find_data_None: "find (\<lambda>g. data g = Some k) gs = None \<longleftrightarrow> k \<notin> set (dates gs)"
  by (auto simp: find_None_iff set_dates image_iff)

lemma store_ok_Cons:
  "store_ok ((k, e) # rest) \<longleftrightarrow> k \<notin> fst ` set rest \<and> data e = Some k \<and> store_ok rest"
  by (auto simp: store_ok_def)

text \<open>The feed is a prefix of the result, whatever the store holds: the merge only pushes.\<close>

lemma mergeManualEntries_prefix: "prefix gs (mergeManualEntries gs ov)"
proof (induction ov arbitrary: gs)
  case Nil
  show ?case by simp
next
  case (Cons p ov)
  obtain k e where p: "p = (k, e)" by (cases p)
  have "prefix gs (mergeManualEntries (gs @ [e]) ov)"
    using Cons[of "gs @ [e]"] by (rule append_prefixD)
  with Cons[of gs] show ?case
    by (simp add: p split: option.split)
qed

text \<open>On a store that is keyed by the records' own dates, the merge appends exactly the
  entries whose key is not a date of the feed, in the order of the store.\<close>

lemma mergeManualEntries_store_ok:
  "store_ok ov \<Longrightarrow>
     mergeManualEntries gs ov = gs @ map snd (filter (\<lambda>(k, e). k \<notin> set (dates gs)) ov)"
proof (induction ov arbitrary: gs)
  case Nil
  show ?case by simp
next
  case (Cons p ov)
  obtain k e where p: "p = (k, e)" by (cases p)
  from Cons.prems have k: "k \<notin> fst ` set ov" and e: "data e = Some k" and ok: "store_ok ov"
    by (simp_all add: p store_ok_Cons)
  show ?case
  proof (cases "k \<in> set (dates gs)")
    case True
    then have "find (\<lambda>g. data g = Some k) gs \<noteq> None"
      by (simp add: find_data_None)
    with Cons.IH[OF ok, of gs] True show ?thesis
      by (auto simp: p)
  next
    case False
    then have none: "find (\<lambda>g. data g = Some k) gs = None"
      by (simp add: find_data_None)
    have "filter (\<lambda>(k', e'). k' \<notin> set (dates (gs @ [e]))) ov
        = filter (\<lambda>(k', e'). k' \<notin> set (dates gs)) ov"
      using k by (intro filter_cong) (auto simp: dates_append dates_def e image_iff)
    with Cons.IH[OF ok, of "gs @ [e]"] none False show ?thesis
      by (simp add: p)
  qed
qed

lemma dates_store_ok:
  "list_all (\<lambda>(k, e). data e = Some k) ov \<Longrightarrow> dates (map snd ov) = map fst ov"
  by (induction ov) (auto simp: dates_def)

text \<open>
  C1. Feed precedence. Let the override store hold each record under its own date (the
  store the data model describes and the script writes, see \<open>store_ok\<close>), and let
  \<open>entry\<close> be stored under the date \<open>d\<close>. The feed records are all in the
  result, unchanged and in their places. If \<open>d\<close> is a date of the feed, the records of the result for \<open>d\<close> are
  exactly the feed's: the override is not added. If \<open>d\<close> is not a date of the feed,
  the result holds for \<open>d\<close> exactly the override record, unchanged.
\<close>

theorem C1_feed_precedence:
  assumes "store_ok manualEntries" and "(d, entry) \<in> set manualEntries"
  shows "prefix allGiornate (mergeManualEntries allGiornate manualEntries)
    \<and> (d \<in> set (dates allGiornate) \<longrightarrow>
          filter (\<lambda>g. data g = Some d) (mergeManualEntries allGiornate manualEntries)
            = filter (\<lambda>g. data g = Some d) allGiornate)
    \<and> (d \<notin> set (dates allGiornate) \<longrightarrow>
          filter (\<lambda>g. data g = Some d) (mergeManualEntries allGiornate manualEntries) = [entry])"
proof -
  let ?kept = "filter (\<lambda>(k, e). k \<notin> set (dates allGiornate)) manualEntries"
  have m: "mergeManualEntries allGiornate manualEntries = allGiornate @ map snd ?kept"
    using assms(1) by (rule mergeManualEntries_store_ok)
  have keyed: "list_all (\<lambda>(k, e). data e = Some k) manualEntries"
    and dist: "distinct (map fst manualEntries)"
    using assms(1) by (simp_all add: store_ok_def)
  have sel: "filter (\<lambda>g. data g = Some d) (map snd ?kept)
      = map snd (filter (\<lambda>(k, e). k = d) ?kept)"
    using keyed by (induction manualEntries) auto
  have in_feed: "filter (\<lambda>(k, e). k = d) ?kept = []" if "d \<in> set (dates allGiornate)"
    using that by (auto simp: filter_empty_conv)
  have single: "filter (\<lambda>(k, e). k = d) ov = [(d, entry)]"
    if "distinct (map fst ov)" "(d, entry) \<in> set ov" for ov :: "(string \<times> giornata) list"
    using that by (induction ov) (auto simp: filter_empty_conv image_iff)
  have not_in_feed: "filter (\<lambda>(k, e). k = d) ?kept = [(d, entry)]"
    if "d \<notin> set (dates allGiornate)"
  proof -
    have "filter (\<lambda>(k, e). k = d) ?kept = filter (\<lambda>(k, e). k = d) manualEntries"
      using that by (auto intro: filter_cong)
    with single[OF dist assms(2)] show ?thesis by simp
  qed
  have none: "filter (\<lambda>g. data g = Some d) allGiornate = []" if "d \<notin> set (dates allGiornate)"
    using that by (force simp: filter_empty_conv set_dates image_iff)
  show ?thesis
    using in_feed not_in_feed none
    by (simp add: m sel mergeManualEntries_prefix del: mergeManualEntries.simps)
qed

theorem C1_feed_precedence_witness:
  "store_ok [(''2025-03-01'', day (Some ''2025-03-01'') 0), (''2025-03-02'', day (Some ''2025-03-02'') 6)]
   \<and> mergeManualEntries [day (Some ''2025-03-01'') 8]
        [(''2025-03-01'', day (Some ''2025-03-01'') 0), (''2025-03-02'', day (Some ''2025-03-02'') 6)]
      = [day (Some ''2025-03-01'') 8, day (Some ''2025-03-02'') 6]
   \<and> filter (\<lambda>g. data g = Some ''2025-03-01'')
        (mergeManualEntries [day (Some ''2025-03-01'') 8]
          [(''2025-03-01'', day (Some ''2025-03-01'') 0), (''2025-03-02'', day (Some ''2025-03-02'') 6)])
      = [day (Some ''2025-03-01'') 8]
   \<and> filter (\<lambda>g. data g = Some ''2025-03-02'')
        (mergeManualEntries [day (Some ''2025-03-01'') 8]
          [(''2025-03-01'', day (Some ''2025-03-01'') 0), (''2025-03-02'', day (Some ''2025-03-02'') 6)])
      = [day (Some ''2025-03-02'') 6]"
proof -
  let ?ov = "[(''2025-03-01'', day (Some ''2025-03-01'') 0), (''2025-03-02'', day (Some ''2025-03-02'') 6)]"
  let ?feed = "[day (Some ''2025-03-01'') 8]"
  have ok: "store_ok ?ov" by (simp add: store_ok_def day_def)
  have d: "dates ?feed = [''2025-03-01'']" by (simp add: dates_def day_def)
  have a: "(''2025-03-01'', day (Some ''2025-03-01'') 0) \<in> set ?ov" by simp
  have b: "(''2025-03-02'', day (Some ''2025-03-02'') 6) \<in> set ?ov" by simp
  have m: "mergeManualEntries ?feed ?ov = [day (Some ''2025-03-01'') 8, day (Some ''2025-03-02'') 6]"
    by (simp add: day_def)
  from C1_feed_precedence[OF ok a, of ?feed] C1_feed_precedence[OF ok b, of ?feed] ok m
  show ?thesis by (simp add: d day_def)
qed

text \<open>
  C5, as stated, fails: the merge does not remove duplicates that the feed itself
  contains. Two feed records for the same day and an empty store give a result with
  two records of that date.
\<close>

theorem C5_duplicate_feed_dates_counterexample:
  "store_ok []
   \<and> mergeManualEntries [day (Some ''2025-03-01'') 8, day (Some ''2025-03-01'') 4] []
       = [day (Some ''2025-03-01'') 8, day (Some ''2025-03-01'') 4]
   \<and> \<not> distinct (dates (mergeManualEntries
            [day (Some ''2025-03-01'') 8, day (Some ''2025-03-01'') 4] []))"
  by (simp add: store_ok_def dates_def day_def)

text \<open>
  C5, amended. If no two records of the feed have the same date and the override
  store holds each record under its own date, then no two records of the reconciled
  result have the same date.
\<close>

theorem C5_unique_dates_preserved:
  assumes "distinct (dates allGiornate)" and "store_ok manualEntries"
  shows "distinct (dates (mergeManualEntries allGiornate manualEntries))"
proof -
  let ?kept = "filter (\<lambda>(k, e). k \<notin> set (dates allGiornate)) manualEntries"
  have keyed: "list_all (\<lambda>(k, e). data e = Some k) ?kept"
    using assms(2) by (auto simp: store_ok_def list_all_iff)
  have d: "dates (map snd ?kept) = map fst ?kept"
    using keyed by (rule dates_store_ok)
  have "distinct (map fst ?kept)"
    using assms(2) by (simp add: store_ok_def distinct_map_filter)
  moreover have "set (dates allGiornate) \<inter> set (map fst ?kept) = {}"
    by auto
  ultimately show ?thesis
    using assms(1) by (simp add: mergeManualEntries_store_ok[OF assms(2)] dates_append d)
qed

theorem C5_unique_dates_preserved_witness:
  "distinct (dates [day (Some ''2025-03-01'') 8])
   \<and> store_ok [(''2025-03-01'', day (Some ''2025-03-01'') 0),
                 (''2025-03-02'', day (Some ''2025-03-02'') 6)]
   \<and> distinct (dates (mergeManualEntries [day (Some ''2025-03-01'') 8]
        [(''2025-03-01'', day (Some ''2025-03-01'') 0),
         (''2025-03-02'', day (Some ''2025-03-02'') 6)]))"
proof -
  let ?ov = "[(''2025-03-01'', day (Some ''2025-03-01'') 0),
              (''2025-03-02'', day (Some ''2025-03-02'') 6)]"
  have f: "distinct (dates [day (Some ''2025-03-01'') 8])"
    by (simp add: dates_def day_def)
  have ok: "store_ok ?ov"
    by (simp add: store_ok_def day_def)
  from C5_unique_dates_preserved[OF f ok] f ok show ?thesis
    by simp
qed

text \<open>
  C8. A feed record whose date is the empty string does match the override stored
  under the empty key: \<open>find\<close> compares with \<open>===\<close> and has no test for an empty
  date, so the override is suppressed. A feed record with no date at all matches no
  key, and the override under the empty key is added.
\<close>

theorem C8_empty_date_suppresses_empty_key:
  "mergeManualEntries [day (Some []) 8] [([], day (Some []) 6)] = [day (Some []) 8]
   \<and> mergeManualEntries [day None 8] [([], day (Some []) 6)]
       = [day None 8, day (Some []) 6]"
  by (simp add: day_def)

subsection \<open>Leave requests\<close>

lemma first_separator:
  "x \<notin> set a \<Longrightarrow> x \<notin> set b \<Longrightarrow> a @ x # u = b @ x # v \<longleftrightarrow> a = b \<and> u = v"
proof (induction a arbitrary: b)
  case Nil
  then show ?case by (cases b) auto
next
  case (Cons c a)
  then show ?case by (cases b) auto
qed

lemma key_inject:
  assumes "CHR ''_'' \<notin> set d" and "CHR ''_'' \<notin> set d'"
  shows "t @ ''_'' @ d = t' @ ''_'' @ d' \<longleftrightarrow> t = t' \<and> d = d'"
proof -
  have "t @ ''_'' @ d = t' @ ''_'' @ d' \<longleftrightarrow> rev (t @ ''_'' @ d) = rev (t' @ ''_'' @ d')"
    by (simp only: rev_is_rev_conv)
  also have "\<dots> \<longleftrightarrow> rev d @ CHR ''_'' # rev t = rev d' @ CHR ''_'' # rev t'"
    by simp
  also have "\<dots> \<longleftrightarrow> rev d = rev d' \<and> rev t = rev t'"
    using assms by (intro first_separator) simp_all
  finally show ?thesis by auto
qed

lemma find_append:
  "find P (xs @ ys) = (case find P xs of None \<Rightarrow> find P ys | Some x \<Rightarrow> Some x)"
  by (induction xs) auto

lemma current_record_Nil: "current_record [] = None"
  by (simp add: current_record_def)

lemma current_record_Some:
  assumes "g \<noteq> []"
  shows "\<exists>e. current_record g = Some e"
proof -
  let ?P = "priority ` (stato ` set g)"
  have "Max ?P \<in> ?P" using assms by (intro Max_in) auto
  then obtain z where z: "z \<in> set g" "priority (stato z) = Max ?P" by auto
  have "\<forall>y \<in> set g. priority (stato y) \<le> priority (stato z)"
    by (simp add: z(2))
  with z(1) have "current_record g \<noteq> None"
    unfolding current_record_def find_None_iff by blast
  then show ?thesis by auto
qed

lemma current_record_props:
  assumes "current_record g = Some e"
  shows "e \<in> set g" and "\<forall>y \<in> set g. priority (stato y) \<le> priority (stato e)"
  using assms unfolding current_record_def
  by (auto simp: find_Some_iff)

lemma current_record_snoc:
  "current_record (g @ [x]) =
     (case current_record g of
        None \<Rightarrow> Some x
      | Some e \<Rightarrow> if priority (stato x) > priority (stato e) then Some x else Some e)"
proof (cases "g = []")
  case True
  then show ?thesis by (simp add: current_record_def)
next
  case False
  then obtain e where e: "current_record g = Some e"
    using current_record_Some by blast
  note pe = current_record_props[OF e]
  show ?thesis
  proof (cases "priority (stato x) > priority (stato e)")
    case True
    have "find (\<lambda>z. \<forall>y \<in> set (g @ [x]). priority (stato y) \<le> priority (stato z)) g = None"
      unfolding find_None_iff using True pe(2) by (auto simp: not_le intro: le_less_trans)
    then show ?thesis
      using True pe(2) e[unfolded current_record_def]
      by (auto simp: current_record_def find_append intro: less_imp_le order.trans)
  next
    case False
    have "find (\<lambda>z. \<forall>y \<in> set (g @ [x]). priority (stato y) \<le> priority (stato z)) g
        = find (\<lambda>z. \<forall>y \<in> set g. priority (stato y) \<le> priority (stato z)) g"
      using False pe by (intro find_cong) (auto intro: order.trans)
    then show ?thesis
      using False e[unfolded current_record_def] by (simp add: current_record_def find_append)
  qed
qed

text \<open>The record stored under a key is the current record of the records filed under
  that key, whatever the dates look like.\<close>

lemma licenzeByKey_snoc: "licenzeByKey (ls @ [x]) = dedup_step (licenzeByKey ls) x"
  by (simp add: licenzeByKey_def)

lemma map_of_dedup_step:
  "map_of (dedup_step m x) k =
     (if keyed k x then
        (case map_of m k of
           None \<Rightarrow> Some x
         | Some e \<Rightarrow> if priority (stato x) > priority (stato e) then Some x else Some e)
      else map_of m k)"
  by (auto simp: dedup_step_def keyed_def Let_def update_conv' split: option.splits)

lemma map_of_licenzeByKey:
  "map_of (licenzeByKey ls) k = current_record (filter (keyed k) ls)"
proof (induction ls rule: rev_induct)
  case Nil
  show ?case by (simp add: licenzeByKey_def current_record_def)
next
  case (snoc x ls)
  show ?case
    by (simp add: licenzeByKey_snoc map_of_dedup_step snoc current_record_snoc)
qed

lemma distinct_dedup_step: "distinct (map fst m) \<Longrightarrow> distinct (map fst (dedup_step m x))"
  by (simp add: dedup_step_def Let_def distinct_update split: option.splits)

lemma distinct_licenzeByKey: "distinct (map fst (licenzeByKey ls))"
  by (induction ls rule: rev_induct) (simp_all add: licenzeByKey_snoc distinct_dedup_step, simp add: licenzeByKey_def)

lemma keyed_group:
  assumes "dates_wf ls" and "CHR ''_'' \<notin> set d" and "d \<noteq> []"
  shows "filter (keyed (t @ ''_'' @ d)) ls = group_of ls t d"
  unfolding group_of_def
proof (rule filter_cong[OF refl])
  fix x assume x: "x \<in> set ls"
  show "keyed (t @ ''_'' @ d) x = (tipo x = t \<and> data_inizio x = Some d)"
  proof (cases "data_inizio x")
    case None
    then show ?thesis by (simp add: keyed_def)
  next
    case (Some d')
    with assms(1) x have "CHR ''_'' \<notin> set d'"
      by (auto simp: dates_wf_def list_all_iff)
    from key_inject[OF this assms(2)] Some assms(3) show ?thesis
      by (auto simp: keyed_def)
  qed
qed

text \<open>
  The deduplication of the specification selects the current record. Let the start
  dates be dates (no \<open>_\<close> in them) and let \<open>l\<close> be a request of the input with the
  non-empty start date \<open>d\<close>. The deduplicated object has one entry per key, and
  under the key of \<open>l\<close> it holds the current record of the group \<open>(tipo l, d)\<close>.
\<close>

lemma dedup_selects_current_record:
  assumes "dates_wf allLicenze"
    and "l \<in> set allLicenze" and "data_inizio l = Some d" and "d \<noteq> []"
  shows "distinct (map fst (licenzeByKey allLicenze))
     \<and> map_of (licenzeByKey allLicenze) (tipo l @ ''_'' @ d)
         = current_record (group_of allLicenze (tipo l) d)
     \<and> (\<exists>c. current_record (group_of allLicenze (tipo l) d) = Some c
            \<and> c \<in> set (dedup_licenze allLicenze)
            \<and> tipo c = tipo l \<and> data_inizio c = Some d
            \<and> (\<forall>y \<in> set (group_of allLicenze (tipo l) d). priority (stato y) \<le> priority (stato c)))"
proof -
  from assms have u: "CHR ''_'' \<notin> set d"
    by (auto simp: dates_wf_def list_all_iff)
  have g: "filter (keyed (tipo l @ ''_'' @ d)) allLicenze = group_of allLicenze (tipo l) d"
    using assms(1) u assms(4) by (rule keyed_group)
  have m: "map_of (licenzeByKey allLicenze) (tipo l @ ''_'' @ d)
      = current_record (group_of allLicenze (tipo l) d)"
    by (simp only: map_of_licenzeByKey g)
  have "l \<in> set (group_of allLicenze (tipo l) d)"
    using assms by (simp add: group_of_def)
  then have "group_of allLicenze (tipo l) d \<noteq> []" by auto
  then obtain c where c: "current_record (group_of allLicenze (tipo l) d) = Some c"
    using current_record_Some by blast
  note pc = current_record_props[OF c]
  from m c have "(tipo l @ ''_'' @ d, c) \<in> set (licenzeByKey allLicenze)"
    by (simp add: map_of_SomeD)
  then have "c \<in> set (dedup_licenze allLicenze)"
    by (force simp: dedup_licenze_def)
  moreover from pc(1) have "tipo c = tipo l \<and> data_inizio c = Some d"
    by (simp add: group_of_def)
  ultimately show ?thesis
    using m c pc(2) distinct_licenzeByKey by simp
qed

lemma dedup_example:
  "dates_wf [req ''A'' ''2025-01-10'' ''Presentata'', req ''A'' ''2025-01-10'' ''Approvata'',
             req ''A'' ''2025-01-10'' ''Validata'']
   \<and> dedup_licenze [req ''A'' ''2025-01-10'' ''Presentata'', req ''A'' ''2025-01-10'' ''Approvata'',
             req ''A'' ''2025-01-10'' ''Validata'']
       = [req ''A'' ''2025-01-10'' ''Approvata'']
   \<and> map_of (licenzeByKey [req ''A'' ''2025-01-10'' ''Presentata'',
             req ''A'' ''2025-01-10'' ''Approvata'', req ''A'' ''2025-01-10'' ''Validata''])
         ''A_2025-01-10''
       = current_record (group_of [req ''A'' ''2025-01-10'' ''Presentata'',
             req ''A'' ''2025-01-10'' ''Approvata'', req ''A'' ''2025-01-10'' ''Validata'']
           ''A'' ''2025-01-10'')
   \<and> current_record (group_of [req ''A'' ''2025-01-10'' ''Presentata'',
             req ''A'' ''2025-01-10'' ''Approvata'', req ''A'' ''2025-01-10'' ''Validata'']
           ''A'' ''2025-01-10'')
       = Some (req ''A'' ''2025-01-10'' ''Approvata'')"
proof -
  let ?ls = "[req ''A'' ''2025-01-10'' ''Presentata'', req ''A'' ''2025-01-10'' ''Approvata'',
              req ''A'' ''2025-01-10'' ''Validata'']"
  have wf: "dates_wf ?ls" by code_simp
  have mem: "req ''A'' ''2025-01-10'' ''Presentata'' \<in> set ?ls" by simp
  have st: "data_inizio (req ''A'' ''2025-01-10'' ''Presentata'') = Some ''2025-01-10''"
    and ne: "''2025-01-10'' \<noteq> []"
    and ty: "tipo (req ''A'' ''2025-01-10'' ''Presentata'') = ''A''"
    by (simp_all add: req_def)
  have dd: "dedup_licenze ?ls = [req ''A'' ''2025-01-10'' ''Approvata'']" by code_simp
  have cr: "current_record (group_of ?ls ''A'' ''2025-01-10'')
      = Some (req ''A'' ''2025-01-10'' ''Approvata'')" by code_simp
  from dedup_selects_current_record[OF wf mem st ne]
  have "map_of (licenzeByKey ?ls) (''A'' @ ''_'' @ ''2025-01-10'')
      = current_record (group_of ?ls ''A'' ''2025-01-10'')"
    by (simp only: ty)
  then show ?thesis
    using wf dd cr by simp
qed

text \<open>Equal priorities: the first record met is kept.\<close>

lemma dedup_tie_keeps_first:
  "dedup_licenze [\<lparr>tipo = ''A'', data_inizio = Some ''2025-01-10'', data_fine = Some ''2025-01-11'',
                    stato = ''Presentata''\<rparr>,
                  \<lparr>tipo = ''A'', data_inizio = Some ''2025-01-10'', data_fine = Some ''2025-01-12'',
                    stato = ''Presentata''\<rparr>]
     = [\<lparr>tipo = ''A'', data_inizio = Some ''2025-01-10'', data_fine = Some ''2025-01-11'',
          stato = ''Presentata''\<rparr>]"
  by code_simp

text \<open>The script and the specification deduplicate alike as long as no status is the
  name of an inherited member.\<close>

lemma or_zero_priority:
  "s \<notin> set Object_prototype \<Longrightarrow> or_zero (statoPriority_at s) = Num (priority s)"
  by (simp add: or_zero_def statoPriority_at_def priority_def split: option.split)

lemma renderLicenze_step_eq:
  assumes "stato x \<notin> set Object_prototype"
    and "\<forall>e \<in> snd ` set m. stato e \<notin> set Object_prototype"
  shows "renderLicenze_step m x = dedup_step m x"
proof -
  have "js_gt (or_zero (statoPriority_at (stato x))) (or_zero (statoPriority_at (stato e)))
      = (priority (stato e) < priority (stato x))" if "map_of m k = Some e" for k e
  proof -
    from that have "e \<in> snd ` set m" by (force dest: map_of_SomeD)
    with assms(2) have "stato e \<notin> set Object_prototype" by blast
    with assms(1) show ?thesis by (simp add: or_zero_priority js_gt_def)
  qed
  then show ?thesis
    by (simp add: renderLicenze_step_def dedup_step_def Let_def split: option.split)
qed

lemma licenzeByKey_values: "snd ` set (licenzeByKey ls) \<subseteq> set ls"
proof
  fix e assume "e \<in> snd ` set (licenzeByKey ls)"
  then obtain k where "(k, e) \<in> set (licenzeByKey ls)" by force
  then have "map_of (licenzeByKey ls) k = Some e"
    using distinct_licenzeByKey by simp
  then have "current_record (filter (keyed k) ls) = Some e"
    by (simp only: map_of_licenzeByKey)
  from current_record_props(1)[OF this] show "e \<in> set ls" by simp
qed

lemma renderLicenze_byKey_eq:
  "no_inherited ls \<Longrightarrow> renderLicenze_byKey ls = licenzeByKey ls"
proof (induction ls rule: rev_induct)
  case Nil
  show ?case by (simp add: renderLicenze_byKey_def licenzeByKey_def)
next
  case (snoc x ls)
  from snoc.prems have ls: "no_inherited ls" and x: "stato x \<notin> set Object_prototype"
    by (simp_all add: no_inherited_def)
  have "\<forall>e \<in> snd ` set (licenzeByKey ls). stato e \<notin> set Object_prototype"
    using licenzeByKey_values[of ls] ls by (auto simp: no_inherited_def list_all_iff)
  with x have "renderLicenze_step (licenzeByKey ls) x = dedup_step (licenzeByKey ls) x"
    by (rule renderLicenze_step_eq)
  then show ?case
    by (simp add: renderLicenze_byKey_def licenzeByKey_def snoc.IH[OF ls, unfolded renderLicenze_byKey_def licenzeByKey_def])
qed

text \<open>
  So, for an input without such statuses: let the start dates be dates (no \<open>_\<close> in
  them) and let \<open>l\<close> be a request of the input with the non-empty start date \<open>d\<close>.
  The object built by \<open>renderLicenze\<close> has one entry per key, and under the key of
  \<open>l\<close> it holds the current record of the group \<open>(tipo l, d)\<close>.
\<close>

lemma renderLicenze_selects_current_record:
  assumes "no_inherited allLicenze" and "dates_wf allLicenze"
    and "l \<in> set allLicenze" and "data_inizio l = Some d" and "d \<noteq> []"
  shows "distinct (map fst (renderLicenze_byKey allLicenze))
     \<and> map_of (renderLicenze_byKey allLicenze) (tipo l @ ''_'' @ d)
         = current_record (group_of allLicenze (tipo l) d)
     \<and> (\<exists>c. current_record (group_of allLicenze (tipo l) d) = Some c
            \<and> c \<in> set (renderLicenze_values allLicenze)
            \<and> tipo c = tipo l \<and> data_inizio c = Some d
            \<and> (\<forall>y \<in> set (group_of allLicenze (tipo l) d). priority (stato y) \<le> priority (stato c)))"
  using dedup_selects_current_record[OF assms(2-5)]
  by (simp only: renderLicenze_byKey_eq[OF assms(1)] renderLicenze_values_def dedup_licenze_def)

text \<open>The key of a request with a start date that is a date is never the name of an
  inherited member, so the lookup of the key finds own properties only.\<close>

lemma key_not_inherited:
  assumes "CHR ''_'' \<notin> set d" and "d \<noteq> []"
  shows "t @ ''_'' @ d \<notin> set Object_prototype"
proof
  assume a: "t @ ''_'' @ d \<in> set Object_prototype"
  have u: "CHR ''_'' \<in> set (t @ ''_'' @ d)" by simp
  have "last d \<noteq> CHR ''_''" using assms(1) last_in_set[OF assms(2)] by metis
  with assms(2) have l: "last (t @ ''_'' @ d) \<noteq> CHR ''_''"
    by simp
  have "list_all (\<lambda>n. CHR ''_'' \<notin> set n \<or> last n = CHR ''_'') Object_prototype"
    by code_simp
  with a have "CHR ''_'' \<notin> set (t @ ''_'' @ d) \<or> last (t @ ''_'' @ d) = CHR ''_''"
    unfolding list_all_iff by blast
  with u l show False by blast
qed

text \<open>
  C3. A request with the status \<open>toString\<close>, a status outside the table, followed by
  the Approvata record of the same type and start date: \<open>renderLicenze\<close> keeps the
  first record, because the lookup of \<open>toString\<close> in \<open>statoPriority\<close> finds the
  inherited function, which is not replaced by \<open>0\<close> and compares as \<open>NaN\<close>. The
  deduplication of the specification ranks that status 0 and selects the Approvata
  record. On the three records of the specification's example, with the statuses
  Presentata, Approvata and Validata, the script does select the Approvata record.
\<close>

theorem C3_inherited_status_keeps_first_record:
  "renderLicenze_values
     [req ''A'' ''2025-01-10'' ''toString'', req ''A'' ''2025-01-10'' ''Approvata'']
     = [req ''A'' ''2025-01-10'' ''toString'']
   \<and> dedup_licenze
       [req ''A'' ''2025-01-10'' ''toString'', req ''A'' ''2025-01-10'' ''Approvata'']
       = [req ''A'' ''2025-01-10'' ''Approvata'']
   \<and> priority ''toString'' = 0 \<and> priority ''Approvata'' = 5
   \<and> renderLicenze_values
       [req ''A'' ''2025-01-10'' ''Presentata'', req ''A'' ''2025-01-10'' ''Approvata'',
        req ''A'' ''2025-01-10'' ''Validata'']
       = [req ''A'' ''2025-01-10'' ''Approvata'']"
  by code_simp

lemma keys_pending_step:
  "fst ` set (pending_step A m l) =
     fst ` set m \<union>
     (case data_inizio l of
        None \<Rightarrow> {}
      | Some d \<Rightarrow> if isPending (stato l) \<and> d \<noteq> [] \<and> \<not> hasResolved A l
                  then {tipo l @ ''_'' @ d} else {})"
  by (auto simp: pending_step_def dom_update split: option.splits)

lemma keys_pending_foldl:
  "fst ` set (foldl (pending_step A) m ls) =
     fst ` set m \<union>
     {tipo l @ ''_'' @ d | l d. l \<in> set ls \<and> data_inizio l = Some d \<and> isPending (stato l)
        \<and> d \<noteq> [] \<and> \<not> hasResolved A l}"
proof (induction ls arbitrary: m)
  case Nil
  show ?case by simp
next
  case (Cons x ls)
  show ?case
    unfolding foldl_Cons Cons keys_pending_step
    by (cases "data_inizio x") auto
qed

lemma keys_pendingByDate:
  "fst ` set (pendingByDate ls) =
     {tipo l @ ''_'' @ d | l d. l \<in> set ls \<and> data_inizio l = Some d \<and> isPending (stato l)
        \<and> d \<noteq> [] \<and> \<not> hasResolved ls l}"
  by (simp add: pendingByDate_def keys_pending_foldl)

lemma hasResolved_iff:
  "hasResolved ls l \<longleftrightarrow>
     (\<exists>x \<in> set ls. tipo x = tipo l \<and> data_inizio x = data_inizio l \<and> isResolved (stato x))"
  by (simp add: hasResolved_def list_ex_iff)

lemma pending_flag_iff:
  assumes "dates_wf allLicenze" and "CHR ''_'' \<notin> set d" and "d \<noteq> []"
  shows "(t @ ''_'' @ d \<in> fst ` set (pendingByDate allLicenze)) \<longleftrightarrow>
           (\<exists>l \<in> set allLicenze. tipo l = t \<and> data_inizio l = Some d \<and> isPending (stato l))
           \<and> \<not> (\<exists>x \<in> set allLicenze. tipo x = t \<and> data_inizio x = Some d \<and> isResolved (stato x))"
proof
  assume "t @ ''_'' @ d \<in> fst ` set (pendingByDate allLicenze)"
  then obtain l d' where l: "l \<in> set allLicenze" "data_inizio l = Some d'" "isPending (stato l)"
      "d' \<noteq> []" "\<not> hasResolved allLicenze l" and k: "t @ ''_'' @ d = tipo l @ ''_'' @ d'"
    unfolding keys_pendingByDate by blast
  from assms(1) l(1,2) have "CHR ''_'' \<notin> set d'"
    by (auto simp: dates_wf_def list_all_iff)
  from key_inject[OF assms(2) this] k have eq: "t = tipo l" "d = d'" by simp_all
  with l show "(\<exists>l \<in> set allLicenze. tipo l = t \<and> data_inizio l = Some d \<and> isPending (stato l))
           \<and> \<not> (\<exists>x \<in> set allLicenze. tipo x = t \<and> data_inizio x = Some d \<and> isResolved (stato x))"
    by (auto simp: hasResolved_iff)
next
  assume a: "(\<exists>l \<in> set allLicenze. tipo l = t \<and> data_inizio l = Some d \<and> isPending (stato l))
           \<and> \<not> (\<exists>x \<in> set allLicenze. tipo x = t \<and> data_inizio x = Some d \<and> isResolved (stato x))"
  then obtain l where l: "l \<in> set allLicenze" "tipo l = t" "data_inizio l = Some d" "isPending (stato l)"
    by blast
  from a l have "\<not> hasResolved allLicenze l"
    by (auto simp: hasResolved_iff)
  with l assms(3) show "t @ ''_'' @ d \<in> fst ` set (pendingByDate allLicenze)"
    unfolding keys_pendingByDate by blast
qed

text \<open>
  C4. The pending alert. Let the start dates be dates (no \<open>_\<close> in them) and \<open>d\<close> a
  non-empty one. The key of the group \<open>(t, d)\<close> is flagged in \<open>pendingByDate\<close> if and
  only if some record of the group has the status Presentata or Validata and no
  record of the whole raw input with that type and start date has the status
  Approvata, Rifiutata or Annullata. The condition reads the input as a set, so the
  order of the input plays no part: any input made of the same records and a resolved
  record for \<open>(t, d)\<close>, wherever it stands, leaves the key unflagged.
\<close>

theorem C4_pending_flag:
  assumes "dates_wf allLicenze" and "CHR ''_'' \<notin> set d" and "d \<noteq> []"
  shows "((t @ ''_'' @ d \<in> fst ` set (pendingByDate allLicenze)) \<longleftrightarrow>
           (\<exists>l \<in> set allLicenze. tipo l = t \<and> data_inizio l = Some d \<and> isPending (stato l))
           \<and> \<not> (\<exists>x \<in> set allLicenze. tipo x = t \<and> data_inizio x = Some d \<and> isResolved (stato x)))
     \<and> (\<forall>x ls'. set ls' = insert x (set allLicenze) \<and> tipo x = t \<and> data_inizio x = Some d
            \<and> isResolved (stato x)
          \<longrightarrow> t @ ''_'' @ d \<notin> fst ` set (pendingByDate ls'))"
proof (intro conjI allI impI)
  show "(t @ ''_'' @ d \<in> fst ` set (pendingByDate allLicenze)) \<longleftrightarrow>
           (\<exists>l \<in> set allLicenze. tipo l = t \<and> data_inizio l = Some d \<and> isPending (stato l))
           \<and> \<not> (\<exists>x \<in> set allLicenze. tipo x = t \<and> data_inizio x = Some d \<and> isResolved (stato x))"
    using assms by (rule pending_flag_iff)
next
  fix x ls'
  assume a: "set ls' = insert x (set allLicenze) \<and> tipo x = t \<and> data_inizio x = Some d
      \<and> isResolved (stato x)"
  with assms(1,2) have "dates_wf ls'"
    by (auto simp: dates_wf_def list_all_iff)
  from pending_flag_iff[OF this assms(2,3), of t] a
  show "t @ ''_'' @ d \<notin> fst ` set (pendingByDate ls')"
    by auto
qed

theorem C4_pending_flag_witness:
  "dates_wf [req ''B'' ''2025-02-01'' ''Presentata'']
   \<and> ''B_2025-02-01'' \<in> fst ` set (pendingByDate [req ''B'' ''2025-02-01'' ''Presentata''])
   \<and> checkPendingLicenze [req ''B'' ''2025-02-01'' ''Presentata''] = Some 1
   \<and> ''B_2025-02-01'' \<notin> fst ` set (pendingByDate
         [req ''B'' ''2025-02-01'' ''Presentata'', req ''B'' ''2025-02-01'' ''Rifiutata''])
   \<and> ''B_2025-02-01'' \<notin> fst ` set (pendingByDate
         [req ''B'' ''2025-02-01'' ''Rifiutata'', req ''B'' ''2025-02-01'' ''Presentata''])
   \<and> checkPendingLicenze
         [req ''B'' ''2025-02-01'' ''Presentata'', req ''B'' ''2025-02-01'' ''Rifiutata''] = None
   \<and> checkPendingLicenze
         [req ''B'' ''2025-02-01'' ''Rifiutata'', req ''B'' ''2025-02-01'' ''Presentata''] = None"
proof -
  let ?p = "req ''B'' ''2025-02-01'' ''Presentata''" and ?r = "req ''B'' ''2025-02-01'' ''Rifiutata''"
  have wf: "dates_wf [?p]" "dates_wf [?p, ?r]" "dates_wf [?r, ?p]" by code_simp+
  have u: "CHR ''_'' \<notin> set ''2025-02-01''" and ne: "''2025-02-01'' \<noteq> []" by simp_all
  have c: "checkPendingLicenze [?p] = Some 1" "checkPendingLicenze [?p, ?r] = None"
    "checkPendingLicenze [?r, ?p] = None" by code_simp+
  have "''B'' @ ''_'' @ ''2025-02-01'' \<in> fst ` set (pendingByDate [?p])"
    using C4_pending_flag[OF wf(1) u ne, of "''B''"]
    by (simp add: req_def isPending_def isResolved_def)
  moreover have "''B'' @ ''_'' @ ''2025-02-01'' \<notin> fst ` set (pendingByDate [?p, ?r])"
    unfolding pending_flag_iff[OF wf(2) u ne, of "''B''"]
    by (simp add: req_def isPending_def isResolved_def)
  moreover have "''B'' @ ''_'' @ ''2025-02-01'' \<notin> fst ` set (pendingByDate [?r, ?p])"
    unfolding pending_flag_iff[OF wf(3) u ne, of "''B''"]
    by (simp add: req_def isPending_def isResolved_def)
  ultimately show ?thesis
    using wf(1) c by simp
qed

subsection \<open>Removed shifts\<close>

lemma turniAttivi_active: "t \<in> set (turniAttivi g) \<Longrightarrow> t_stato t \<noteq> Some ''eliminato''"
  by (simp add: turniAttivi_def)

text \<open>
  C6. On a day whose first shift is a removed absence and whose second shift is the
  active service, the day detail leaves the removed shift out and lists the service
  alone, but the list item shows the badge and label of the removed absence, the
  export row has the type of the removed shift, and the modal shows the removed
  absence: these three read \<open>turni[0]\<close> without the test for \<open>eliminato\<close>. The
  record keeps both shifts.
\<close>

theorem C6_removed_shift_shown_in_list_and_export:
  "showDayDetail corrected_day
     = TurniDetail [shift ''PRESENZA'' ''Servizio esterno'' ''08:00'' ''14:00'' 6 ''attivo''] 6 6 0
   \<and> tipoBadge (renderGiornataItem cmp corrected_day) = ''RS''
   \<and> item_orario (renderGiornataItem cmp corrected_day) = Label ''Riposo Settimanale''
   \<and> row_tipo (exportCSV_row corrected_day) = ''ASSENZA''
   \<and> showGiornataDetails corrected_day = TipoDetail ''Riposo Settimanale''
   \<and> length (turni corrected_day) = 2"
  by (simp add: showDayDetail_def turniAttivi_def renderGiornataItem_def exportCSV_row_def
      showGiornataDetails_def corrected_day_def shift_def Let_def, code_simp)


subsection \<open>Leave balance\<close>

lemma digit_val_Some: "digit_val c = Some n \<longleftrightarrow> n < 10 \<and> c = char_of (48 + n)"
proof -
  have "of_char c < (256::nat)" by simp
  have r: "char_of (of_char c :: nat) = c" by simp
  show ?thesis
    unfolding digit_val_def Let_def
  proof (cases "48 \<le> (of_char c :: nat) \<and> (of_char c :: nat) \<le> 57")
    case True
    then have "48 + (of_char c - 48) = (of_char c :: nat)" by simp
    with True r show "((if 48 \<le> (of_char c::nat) \<and> (of_char c::nat) \<le> 57 then Some (of_char c - 48) else None) = Some n)
        = (n < 10 \<and> c = char_of (48 + n))"
      by (auto simp: of_char_of[where 'a=nat])
  next
    case False
    then show "((if 48 \<le> (of_char c::nat) \<and> (of_char c::nat) \<le> 57 then Some (of_char c - 48) else None) = Some n)
        = (n < 10 \<and> c = char_of (48 + n))"
      by (auto simp: of_char_of[where 'a=nat])
  qed
qed

lemma iso_date_form:
  assumes "iso_date s = Some (y, m, d)"
  obtains a b c e f g h i where
    "s = [char_of (48 + a), char_of (48 + b), char_of (48 + c), char_of (48 + e), CHR ''-'',
          char_of (48 + f), char_of (48 + g), CHR ''-'', char_of (48 + h), char_of (48 + i)]"
    "a < 10" "b < 10" "c < 10" "e < 10" "f < 10" "g < 10" "h < 10" "i < 10"
    "y = 1000 * a + 100 * b + 10 * c + e" "m = 10 * f + g" "d = 10 * h + i"
  using assms
  by (elim iso_date.elims)
    (auto simp: Let_def digit_val_Some split: if_splits option.splits list.splits)

lemma digit_char_inject:
  "a < 10 \<Longrightarrow> b < 10 \<Longrightarrow> char_of (48 + a :: nat) = char_of (48 + b :: nat) \<longleftrightarrow> a = b"
proof
  assume "a < 10" "b < 10" "char_of (48 + a) = char_of (48 + b)"
  then have "of_char (char_of (48 + a) :: char) = (of_char (char_of (48 + b) :: char) :: nat)"
    by simp
  with \<open>a < 10\<close> \<open>b < 10\<close> show "a = b"
    by (simp add: of_char_of)
qed simp

lemma digit_char_not_underscore: "a < 10 \<Longrightarrow> char_of (48 + a :: nat) \<noteq> CHR ''_''"
proof
  assume "a < 10" "char_of (48 + a) = CHR ''_''"
  then have "of_char (char_of (48 + a) :: char) = (of_char CHR ''_'' :: nat)"
    by simp
  with \<open>a < 10\<close> show False
    by (simp add: of_char_of)
qed

lemma iso_date_no_underscore:
  assumes "iso_date s = Some (y, m, d)"
  shows "CHR ''_'' \<notin> set s \<and> s \<noteq> []"
proof -
  from assms obtain a b c e f g h i :: nat where
    s: "s = [char_of (48 + a), char_of (48 + b), char_of (48 + c), char_of (48 + e), CHR ''-'',
          char_of (48 + f), char_of (48 + g), CHR ''-'', char_of (48 + h), char_of (48 + i)]"
    and lt: "a < 10" "b < 10" "c < 10" "e < 10" "f < 10" "g < 10" "h < 10" "i < 10"
    and "y = 1000 * a + 100 * b + 10 * c + e" "m = 10 * f + g" "d = 10 * h + i"
    by (rule iso_date_form)
  have n: "(CHR ''_'' = char_of (48 + k)) = False" if "k < 10" for k :: nat
    using digit_char_not_underscore[OF that] by auto
  have m: "(CHR ''_'' = CHR ''-'') = False" by simp
  have "CHR ''_'' \<notin> set s"
    unfolding s by (simp only: list.set insert_iff empty_iff n[OF lt(1)] n[OF lt(2)]
        n[OF lt(3)] n[OF lt(4)] n[OF lt(5)] n[OF lt(6)] n[OF lt(7)] n[OF lt(8)] m simp_thms)
  moreover have "s \<noteq> []" unfolding s by simp
  ultimately show ?thesis by simp
qed

lemma String_nat_4:
  assumes "1000 \<le> n" and "n \<le> 9999"
  shows "String_nat n = [char_of (48 + n div 1000), char_of (48 + n div 100 mod 10),
                         char_of (48 + n div 10 mod 10), char_of (48 + n mod 10)]"
proof -
  have a: "String_nat n = String_nat (n div 10) @ [char_of (48 + n mod 10)]"
    using assms by (subst String_nat.simps) simp
  have b: "String_nat (n div 10) = String_nat (n div 100) @ [char_of (48 + n div 10 mod 10)]"
    using assms by (subst String_nat.simps) (simp add: div_mult2_eq[symmetric])
  have c: "String_nat (n div 100) = String_nat (n div 1000) @ [char_of (48 + n div 100 mod 10)]"
    using assms by (subst String_nat.simps) (simp add: div_mult2_eq[symmetric])
  have d: "String_nat (n div 1000) = [char_of (48 + n div 1000)]"
    using assms by (subst String_nat.simps) simp
  show ?thesis by (simp only: a b c d append.simps)
qed

lemma year_digits:
  fixes a b c e n :: nat
  assumes "a < 10" "b < 10" "c < 10" "e < 10"
  shows "(n div 1000 = a \<and> n div 100 mod 10 = b \<and> n div 10 mod 10 = c \<and> n mod 10 = e \<and> n \<le> 9999)
         \<longleftrightarrow> 1000 * a + 100 * b + 10 * c + e = n"
proof
  assume h: "n div 1000 = a \<and> n div 100 mod 10 = b \<and> n div 10 mod 10 = c \<and> n mod 10 = e \<and> n \<le> 9999"
  have e1: "n div 10 div 10 = n div 100" and e2: "n div 100 div 10 = n div 1000"
    by (simp_all add: div_mult2_eq[symmetric])
  have "n = 10 * (n div 10) + n mod 10" by simp
  moreover have "n div 10 = 10 * (n div 100) + n div 10 mod 10"
    using div_mult_mod_eq[of "n div 10" 10] by (simp add: e1)
  moreover have "n div 100 = 10 * (n div 1000) + n div 100 mod 10"
    using div_mult_mod_eq[of "n div 100" 10] by (simp add: e2)
  ultimately show "1000 * a + 100 * b + 10 * c + e = n"
    using h by linarith
next
  assume h: "1000 * a + 100 * b + 10 * c + e = n"
  have dm: "(q * 10 + r) div 10 = q \<and> (q * 10 + r) mod 10 = r" if "r < 10" for q r :: nat
    using that by simp
  have n0: "n = (100 * a + 10 * b + c) * 10 + e" using h by simp
  have 1: "n mod 10 = e" and d1: "n div 10 = 100 * a + 10 * b + c"
    unfolding n0 using dm[OF assms(4)] by blast+
  have n1: "n div 10 = (10 * a + b) * 10 + c" using d1 by simp
  have 2: "n div 10 mod 10 = c" and d2': "n div 10 div 10 = 10 * a + b"
    unfolding n1 using dm[OF assms(3)] by blast+
  have d2: "n div 100 = 10 * a + b"
    using d2' by (simp add: div_mult2_eq[symmetric])
  have n2: "n div 100 = a * 10 + b" using d2 by simp
  have 3: "n div 100 mod 10 = b" and d3': "n div 100 div 10 = a"
    unfolding n2 using dm[OF assms(2)] by blast+
  have 4: "n div 1000 = a"
    using d3' by (simp add: div_mult2_eq[symmetric])
  have "n \<le> 9999" using assms h by linarith
  with 1 2 3 4 show "n div 1000 = a \<and> n div 100 mod 10 = b \<and> n div 10 mod 10 = c \<and> n mod 10 = e \<and> n \<le> 9999"
    by simp
qed

lemma year_prefix:
  assumes "iso_date s = Some (y, m, d)" and "1000 \<le> n" and "n \<le> 9999"
  shows "startsWith s (String_nat n) \<longleftrightarrow> y = n"
proof -
  from assms(1) obtain a b c e f g h i :: nat where
    s: "s = [char_of (48 + a), char_of (48 + b), char_of (48 + c), char_of (48 + e), CHR ''-'',
          char_of (48 + f), char_of (48 + g), CHR ''-'', char_of (48 + h), char_of (48 + i)]"
    and lt: "a < 10" "b < 10" "c < 10" "e < 10" and "f < 10" "g < 10" "h < 10" "i < 10"
    and y: "y = 1000 * a + 100 * b + 10 * c + e" and "m = 10 * f + g" "d = 10 * h + i"
    by (rule iso_date_form)
  have q: "n div 1000 < 10" "n div 100 mod 10 < 10" "n div 10 mod 10 < 10" "n mod 10 < 10"
    using assms(3) by simp_all
  have "startsWith s (String_nat n) \<longleftrightarrow>
      n div 1000 = a \<and> n div 100 mod 10 = b \<and> n div 10 mod 10 = c \<and> n mod 10 = e"
    unfolding startsWith_def String_nat_4[OF assms(2,3)] s
    using lt q by (simp add: digit_char_inject)
  also have "\<dots> \<longleftrightarrow> y = n"
    unfolding y using year_digits[OF lt, of n] assms(3) by blast
  finally show ?thesis .
qed

subsection \<open>First record per start date\<close>

lemma distinct_mapD: "distinct (map f ys) \<Longrightarrow> distinct ys"
  by (simp add: distinct_map)

lemma find_filter: "find P (filter Q xs) = find (\<lambda>x. Q x \<and> P x) xs"
  by (induction xs) auto

lemma map_of_byDate_step:
  "map_of (byDate_step m x) k =
     (case map_of m k of
        Some v \<Rightarrow> Some v
      | None \<Rightarrow> if data_inizio x = Some k then Some x else None)"
  by (auto simp: byDate_step_def update_conv' split: option.splits)

lemma map_of_byDate_foldl:
  "map_of (foldl byDate_step m fs) k =
     (case map_of m k of Some v \<Rightarrow> Some v | None \<Rightarrow> find (\<lambda>l. data_inizio l = Some k) fs)"
proof (induction fs arbitrary: m)
  case Nil
  show ?case by (simp split: option.split)
next
  case (Cons x fs)
  show ?case
    unfolding foldl_Cons Cons map_of_byDate_step
    by (simp split: option.split)
qed

lemma distinct_byDate_foldl:
  "distinct (map fst m) \<Longrightarrow> distinct (map fst (foldl byDate_step m fs))"
proof (induction fs arbitrary: m)
  case Nil
  then show ?case by simp
next
  case (Cons x fs)
  from Cons.prems have "distinct (map fst (byDate_step m x))"
    by (simp add: byDate_step_def distinct_update split: option.splits)
  then show ?case by (simp add: Cons.IH)
qed

lemma distinct_licenzeByDate: "distinct (map fst (licenzeByDate y ls))"
  by (simp add: licenzeByDate_def distinct_byDate_foldl)

lemma in_licenzeByDate:
  "(k, l) \<in> set (licenzeByDate y ls) \<longleftrightarrow>
     startsWith k (String_nat y) \<and> find (ord_appr k) ls = Some l"
proof -
  have "(k, l) \<in> set (licenzeByDate y ls) \<longleftrightarrow> map_of (licenzeByDate y ls) k = Some l"
    using distinct_licenzeByDate by simp
  also have "\<dots> \<longleftrightarrow> find (\<lambda>x. isOrdinariaApprovata y x \<and> data_inizio x = Some k) ls = Some l"
    by (simp add: licenzeByDate_def map_of_byDate_foldl find_filter)
  also have "\<dots> \<longleftrightarrow> startsWith k (String_nat y) \<and> find (ord_appr k) ls = Some l"
  proof (cases "startsWith k (String_nat y)")
    case True
    then have "(\<lambda>x. isOrdinariaApprovata y x \<and> data_inizio x = Some k) = ord_appr k"
      by (auto simp: isOrdinariaApprovata_def ord_appr_def fun_eq_iff)
    with True show ?thesis by simp
  next
    case False
    then have "find (\<lambda>x. isOrdinariaApprovata y x \<and> data_inizio x = Some k) ls = None"
      by (auto simp: find_None_iff isOrdinariaApprovata_def)
    with False show ?thesis by simp
  qed
  finally show ?thesis .
qed

lemma distinct_snd_licenzeByDate: "distinct (map snd (licenzeByDate y ls))"
proof -
  have "map fst (licenzeByDate y ls) = map (\<lambda>l. the (data_inizio l)) (map snd (licenzeByDate y ls))"
  proof (simp, intro ballI)
    fix p assume p: "p \<in> set (licenzeByDate y ls)"
    obtain k l where kl: "p = (k, l)" by (cases p)
    with p have "find (ord_appr k) ls = Some l" by (simp add: in_licenzeByDate)
    then have "ord_appr k l" by (auto simp: find_Some_iff)
    then show "fst p = the (data_inizio (snd p))" by (simp add: kl ord_appr_def)
  qed
  with distinct_licenzeByDate[of y ls]
  have "distinct (map (\<lambda>l. the (data_inizio l)) (map snd (licenzeByDate y ls)))" by simp
  then show ?thesis by (rule distinct_mapD)
qed

subsection \<open>The approved record of a group\<close>

lemma priority_le_5: "priority s \<le> 5"
  by (simp add: priority_def statoPriority_def)

lemma priority_5: "priority s = 5 \<longleftrightarrow> s = ''Approvata''"
  by (simp add: priority_def statoPriority_def)

lemma current_record_approved:
  assumes "c \<in> set g" and "stato c = ''Approvata''"
  shows "current_record g = find (\<lambda>l. stato l = ''Approvata'') g"
  unfolding current_record_def
proof (rule find_cong[OF refl])
  fix x assume "x \<in> set g"
  have "priority (stato c) = 5" using assms(2) by (simp add: priority_5)
  show "(\<forall>y \<in> set g. priority (stato y) \<le> priority (stato x)) \<longleftrightarrow> stato x = ''Approvata''"
  proof
    assume "\<forall>y \<in> set g. priority (stato y) \<le> priority (stato x)"
    with assms(1) \<open>priority (stato c) = 5\<close> have "5 \<le> priority (stato x)" by force
    with priority_le_5[of "stato x"] have "priority (stato x) = 5" by simp
    then show "stato x = ''Approvata''" by (simp add: priority_5)
  next
    assume "stato x = ''Approvata''"
    then have "priority (stato x) = 5" by (simp add: priority_5)
    then show "\<forall>y \<in> set g. priority (stato y) \<le> priority (stato x)"
      by (simp add: priority_le_5)
  qed
qed

lemma iso_wf_dates_wf: "iso_wf ls \<Longrightarrow> dates_wf ls"
  unfolding iso_wf_def dates_wf_def list_all_iff
proof (intro ballI)
  fix x assume a: "\<forall>l \<in> set ls. (case data_inizio l of None \<Rightarrow> True | Some d \<Rightarrow> d = [] \<or> iso_date d \<noteq> None)
     \<and> (case data_fine l of None \<Rightarrow> True | Some e \<Rightarrow> e = [] \<or> iso_date e \<noteq> None)" and x: "x \<in> set ls"
  show "case data_inizio x of None \<Rightarrow> True | Some d \<Rightarrow> CHR ''_'' \<notin> set d"
  proof (cases "data_inizio x")
    case None
    then show ?thesis by simp
  next
    case (Some d)
    with a x have "d = [] \<or> iso_date d \<noteq> None" by force
    then have "CHR ''_'' \<notin> set d"
      using iso_date_no_underscore by (cases "iso_date d") auto
    with Some show ?thesis by simp
  qed
qed

text \<open>Membership in the priority deduplication, for an approved ordinary request.\<close>

lemma in_dedup_ord_appr:
  assumes wf: "dates_wf ls" and d: "CHR ''_'' \<notin> set d" "d \<noteq> []"
  shows "l \<in> set (dedup_licenze ls) \<and> ord_appr d l \<longleftrightarrow> find (ord_appr d) ls = Some l"
proof -
  let ?k = "''ordinaria'' @ ''_'' @ d"
  have g: "filter (keyed ?k) ls = group_of ls ''ordinaria'' d"
    using wf d by (rule keyed_group)
  have fg: "find (\<lambda>l. stato l = ''Approvata'') (group_of ls ''ordinaria'' d) = find (ord_appr d) ls"
    unfolding group_of_def find_filter
    by (rule find_cong) (auto simp: ord_appr_def)
  show ?thesis
  proof
    assume a: "l \<in> set (dedup_licenze ls) \<and> ord_appr d l"
    then obtain k where k: "(k, l) \<in> set (licenzeByKey ls)"
      by (auto simp: dedup_licenze_def)
    then have m: "map_of (licenzeByKey ls) k = Some l"
      using distinct_licenzeByKey by simp
    then have c: "current_record (filter (keyed k) ls) = Some l"
      by (simp only: map_of_licenzeByKey)
    from current_record_props(1)[OF c] have "keyed k l" by simp
    with a have "k = ?k" by (auto simp: keyed_def ord_appr_def)
    with c g have c': "current_record (group_of ls ''ordinaria'' d) = Some l" by simp
    from current_record_props(1)[OF c'] a
    have "current_record (group_of ls ''ordinaria'' d)
        = find (\<lambda>l. stato l = ''Approvata'') (group_of ls ''ordinaria'' d)"
      by (intro current_record_approved[of l]) (auto simp: ord_appr_def)
    with c' fg show "find (ord_appr d) ls = Some l" by simp
  next
    assume f: "find (ord_appr d) ls = Some l"
    then have l: "l \<in> set ls" "ord_appr d l"
      by (auto simp: find_Some_iff)
    then have "l \<in> set (group_of ls ''ordinaria'' d)" "stato l = ''Approvata''"
      by (auto simp: group_of_def ord_appr_def)
    then have "current_record (group_of ls ''ordinaria'' d)
        = find (\<lambda>l. stato l = ''Approvata'') (group_of ls ''ordinaria'' d)"
      by (rule current_record_approved)
    with fg f have "current_record (filter (keyed ?k) ls) = Some l"
      by (simp only: g)
    then have "map_of (licenzeByKey ls) ?k = Some l"
      by (simp only: map_of_licenzeByKey)
    then have "(?k, l) \<in> set (licenzeByKey ls)"
      by (rule map_of_SomeD)
    then have "l \<in> set (dedup_licenze ls)"
      by (force simp: dedup_licenze_def)
    with l(2) show "l \<in> set (dedup_licenze ls) \<and> ord_appr d l" by simp
  qed
qed

lemma distinct_dedup_licenze: "distinct (dedup_licenze ls)"
proof -
  let ?kf = "\<lambda>l. tipo l @ ''_'' @ the (data_inizio l)"
  have "map fst (licenzeByKey ls) = map ?kf (map snd (licenzeByKey ls))"
  proof (simp, intro ballI)
    fix p assume p: "p \<in> set (licenzeByKey ls)"
    obtain k l where kl: "p = (k, l)" by (cases p)
    with p have "map_of (licenzeByKey ls) k = Some l"
      using distinct_licenzeByKey by simp
    then have "current_record (filter (keyed k) ls) = Some l"
      by (simp only: map_of_licenzeByKey)
    from current_record_props(1)[OF this] have "keyed k l" by simp
    then show "fst p = tipo (snd p) @ CHR ''_'' # the (data_inizio (snd p))"
      by (auto simp: kl keyed_def split: option.splits)
  qed
  with distinct_licenzeByKey[of ls]
  have "distinct (map ?kf (map snd (licenzeByKey ls)))" by simp
  then show ?thesis unfolding dedup_licenze_def by (rule distinct_mapD)
qed

subsection \<open>Counting the days\<close>

lemma ceiling_day_quotient:
  "\<lceil>\<bar>(of_int b :: rat) * of_int msPerDay - of_int a * of_int msPerDay\<bar> / of_int msPerDay\<rceil>
     = \<bar>b - a\<bar>"
proof -
  have pos: "(0::rat) < of_int msPerDay" by (simp add: msPerDay_def)
  have "\<bar>(of_int b :: rat) * of_int msPerDay - of_int a * of_int msPerDay\<bar>
      = \<bar>of_int b - of_int a\<bar> * of_int msPerDay"
    using pos by (simp add: left_diff_distrib[symmetric] abs_mult)
  then have "\<bar>(of_int b :: rat) * of_int msPerDay - of_int a * of_int msPerDay\<bar> / of_int msPerDay
      = of_int \<bar>b - a\<bar>"
    using pos by simp
  then show ?thesis by (simp only: ceiling_of_int)
qed

lemma in_set_map_snd: "l \<in> set (map snd al) \<longleftrightarrow> (\<exists>k. (k, l) \<in> set al)"
  by force

lemma diffDays_iso:
  assumes "data_inizio l = Some s" and "iso_date s \<noteq> None"
    and "case data_fine l of None \<Rightarrow> True | Some e \<Rightarrow> e = [] \<or> iso_date e \<noteq> None"
  shows "diffDays host l = Some (inclusive_days l)"
proof -
  from assms(2) obtain a where a: "iso_date s = Some a" by auto
  then have ne: "s \<noteq> []" by auto
  show ?thesis
  proof (cases "data_fine l")
    case None
    with assms(1) ne show ?thesis by (simp add: diffDays_def inclusive_days_def)
  next
    case (Some e)
    show ?thesis
    proof (cases "e = []")
      case True
      with Some assms(1) ne show ?thesis by (simp add: diffDays_def inclusive_days_def)
    next
      case False
      with assms(3) Some obtain b where b: "iso_date e = Some b" by auto
      with False Some assms(1) ne a show ?thesis
        by (simp add: diffDays_def inclusive_days_def Date_ms_def ceiling_day_quotient)
    qed
  qed
qed

lemma foldl_add_days:
  assumes "\<forall>l \<in> set xs. diffDays host l = Some (f l)"
  shows "foldl (\<lambda>used l. add_days used (diffDays host l)) (Some a) xs
           = Some (a + sum_list (map f xs))"
  using assms by (induction xs arbitrary: a) (simp_all add: add_days_def add.assoc)

lemma String_nat_nonempty: "String_nat n \<noteq> []"
  by (subst String_nat.simps) (simp del: String_nat.simps)

text \<open>
  C7. The leave balance. Let the dates of the requests be calendar dates
  \<open>YYYY-MM-DD\<close> where present and the current year have four digits. The days
  used are the sum, over the deduplicated requests (the current records of
  \<open>dedup_licenze\<close>) that are approved, of the ordinary type and start in the current
  year, of the calendar days from start to end, both included, and of one day for a
  request without an end date. The days left are the yearly allowance minus that sum.
  A request from 2025-06-10 to 2025-06-12 counts 3 days (see the witness).
\<close>

theorem C7_leave_balance:
  assumes "iso_wf allLicenze" and "1000 \<le> thisYear" and "thisYear \<le> 9999"
  shows "giorniUsati host thisYear allLicenze
           = Some (sum_list (map inclusive_days
               (filter (\<lambda>l. approved_ordinary l \<and> start_year l = Some thisYear)
                 (dedup_licenze allLicenze))))
     \<and> giorniRimanenti host thisYear giorniLicenzaAnnuale allLicenze
           = Some (giorniLicenzaAnnuale - sum_list (map inclusive_days
               (filter (\<lambda>l. approved_ordinary l \<and> start_year l = Some thisYear)
                 (dedup_licenze allLicenze))))"
proof -
  let ?L1 = "map snd (licenzeByDate thisYear allLicenze)"
  let ?Q = "\<lambda>l. approved_ordinary l \<and> start_year l = Some thisYear"
  let ?L2 = "filter ?Q (dedup_licenze allLicenze)"
  have wf: "dates_wf allLicenze" using assms(1) by (rule iso_wf_dates_wf)
  have all: "(case data_inizio l of None \<Rightarrow> True | Some d \<Rightarrow> d = [] \<or> iso_date d \<noteq> None)
     \<and> (case data_fine l of None \<Rightarrow> True | Some e \<Rightarrow> e = [] \<or> iso_date e \<noteq> None)"
    if "l \<in> set allLicenze" for l
    using assms(1) that by (simp add: iso_wf_def list_all_iff)
  have L1: "l \<in> set ?L1 \<longleftrightarrow> (\<exists>d. startsWith d (String_nat thisYear) \<and> find (ord_appr d) allLicenze = Some l)" for l
    by (simp only: in_set_map_snd in_licenzeByDate)
  have first: "l \<in> set allLicenze \<and> data_inizio l = Some d \<and> approved_ordinary l"
    if "find (ord_appr d) allLicenze = Some l" for l d
    using that by (auto simp: find_Some_iff ord_appr_def approved_ordinary_def)
  have year: "startsWith d (String_nat thisYear) \<longleftrightarrow> map_option fst (iso_date d) = Some thisYear"
    if "find (ord_appr d) allLicenze = Some l" for l d
  proof (cases "iso_date d")
    case None
    with first[OF that] all[of l] have "d = []" by auto
    with None show ?thesis by (simp add: startsWith_def String_nat_nonempty)
  next
    case (Some ymd)
    obtain y m dd where "ymd = (y, m, dd)" by (cases ymd)
    with Some year_prefix[OF _ assms(2,3), of d y m dd] show ?thesis by simp
  qed
  have L2: "l \<in> set ?L2 \<longleftrightarrow> (\<exists>d. startsWith d (String_nat thisYear) \<and> find (ord_appr d) allLicenze = Some l)" for l
  proof
    assume a: "l \<in> set ?L2"
    then obtain d ymd where d: "data_inizio l = Some d" "iso_date d = Some ymd" "fst ymd = thisYear"
      by (auto simp: start_year_def split: option.splits)
    obtain y m dd where ymd: "ymd = (y, m, dd)" by (cases ymd)
    from iso_date_no_underscore[OF d(2)[unfolded ymd]] have u: "CHR ''_'' \<notin> set d" "d \<noteq> []"
      by simp_all
    from a d(1) have "l \<in> set (dedup_licenze allLicenze) \<and> ord_appr d l"
      by (simp add: ord_appr_def approved_ordinary_def)
    then have f: "find (ord_appr d) allLicenze = Some l"
      by (simp only: in_dedup_ord_appr[OF wf u])
    with year[OF f] d show "\<exists>d. startsWith d (String_nat thisYear) \<and> find (ord_appr d) allLicenze = Some l"
      by auto
  next
    assume "\<exists>d. startsWith d (String_nat thisYear) \<and> find (ord_appr d) allLicenze = Some l"
    then obtain d where sw: "startsWith d (String_nat thisYear)"
      and f: "find (ord_appr d) allLicenze = Some l" by blast
    from year[OF f] sw obtain ymd where i: "iso_date d = Some ymd" "fst ymd = thisYear"
      by auto
    obtain y m dd where ymd: "ymd = (y, m, dd)" by (cases ymd)
    from iso_date_no_underscore[OF i(1)[unfolded ymd]] have u: "CHR ''_'' \<notin> set d" "d \<noteq> []"
      by simp_all
    from f have "l \<in> set (dedup_licenze allLicenze) \<and> ord_appr d l"
      by (simp only: in_dedup_ord_appr[OF wf u])
    with first[OF f] i show "l \<in> set ?L2"
      by (simp add: start_year_def)
  qed
  have sets: "set ?L1 = set ?L2"
    using L1 L2 by blast
  have d1: "distinct ?L1" by (rule distinct_snd_licenzeByDate)
  have d2: "distinct ?L2" using distinct_dedup_licenze by simp
  have days: "\<forall>l \<in> set ?L1. diffDays host l = Some (inclusive_days l)"
  proof
    fix l assume "l \<in> set ?L1"
    then obtain d where sw: "startsWith d (String_nat thisYear)"
      and f: "find (ord_appr d) allLicenze = Some l" unfolding L1 by blast
    from year[OF f] sw have "iso_date d \<noteq> None" by auto
    with first[OF f] all[of l] show "diffDays host l = Some (inclusive_days l)"
      by (intro diffDays_iso[of l d]) auto
  qed
  have "giorniUsati host thisYear allLicenze = Some (0 + sum_list (map inclusive_days ?L1))"
    unfolding giorniUsati_def using days by (rule foldl_add_days)
  also have "sum_list (map inclusive_days ?L1) = sum inclusive_days (set ?L1)"
    using d1 by (rule sum_list_distinct_conv_sum_set)
  also have "\<dots> = sum inclusive_days (set ?L2)"
    by (simp only: sets)
  also have "\<dots> = sum_list (map inclusive_days ?L2)"
    using d2 by (rule sum_list_distinct_conv_sum_set[symmetric])
  finally have u: "giorniUsati host thisYear allLicenze = Some (sum_list (map inclusive_days ?L2))"
    by simp
  then show ?thesis
    by (simp add: giorniRimanenti_def)
qed

theorem C7_leave_balance_witness:
  "iso_wf [leave ''ordinaria'' ''2025-06-10'' ''2025-06-12'' ''Presentata'',
           leave ''ordinaria'' ''2025-06-10'' ''2025-06-12'' ''Approvata'',
           leave ''ordinaria'' ''2025-06-10'' ''2025-06-12'' ''Approvata'',
           req ''ordinaria'' ''2025-08-01'' ''Approvata'',
           leave ''ordinaria'' ''2024-12-30'' ''2025-01-02'' ''Approvata'',
           leave ''straordinaria'' ''2025-03-03'' ''2025-03-07'' ''Approvata'']
   \<and> (1000::nat) \<le> 2025 \<and> (2025::nat) \<le> 9999
   \<and> inclusive_days (leave ''ordinaria'' ''2025-06-10'' ''2025-06-12'' ''Approvata'') = 3
   \<and> giorniUsati (\<lambda>s. None) 2025
        [leave ''ordinaria'' ''2025-06-10'' ''2025-06-12'' ''Presentata'',
         leave ''ordinaria'' ''2025-06-10'' ''2025-06-12'' ''Approvata'',
         leave ''ordinaria'' ''2025-06-10'' ''2025-06-12'' ''Approvata'',
         req ''ordinaria'' ''2025-08-01'' ''Approvata'',
         leave ''ordinaria'' ''2024-12-30'' ''2025-01-02'' ''Approvata'',
         leave ''straordinaria'' ''2025-03-03'' ''2025-03-07'' ''Approvata''] = Some 4
   \<and> giorniRimanenti (\<lambda>s. None) 2025 32
        [leave ''ordinaria'' ''2025-06-10'' ''2025-06-12'' ''Presentata'',
         leave ''ordinaria'' ''2025-06-10'' ''2025-06-12'' ''Approvata'',
         leave ''ordinaria'' ''2025-06-10'' ''2025-06-12'' ''Approvata'',
         req ''ordinaria'' ''2025-08-01'' ''Approvata'',
         leave ''ordinaria'' ''2024-12-30'' ''2025-01-02'' ''Approvata'',
         leave ''straordinaria'' ''2025-03-03'' ''2025-03-07'' ''Approvata''] = Some 28"
proof -
  let ?ls = "[leave ''ordinaria'' ''2025-06-10'' ''2025-06-12'' ''Presentata'',
              leave ''ordinaria'' ''2025-06-10'' ''2025-06-12'' ''Approvata'',
              leave ''ordinaria'' ''2025-06-10'' ''2025-06-12'' ''Approvata'',
              req ''ordinaria'' ''2025-08-01'' ''Approvata'',
              leave ''ordinaria'' ''2024-12-30'' ''2025-01-02'' ''Approvata'',
              leave ''straordinaria'' ''2025-03-03'' ''2025-03-07'' ''Approvata'']"
  have wf: "iso_wf ?ls" by code_simp
  have y: "(1000::nat) \<le> 2025" "(2025::nat) \<le> 9999" by simp_all
  have three: "inclusive_days (leave ''ordinaria'' ''2025-06-10'' ''2025-06-12'' ''Approvata'') = 3"
    by code_simp
  have total: "sum_list (map inclusive_days
      (filter (\<lambda>l. approved_ordinary l \<and> start_year l = Some 2025) (dedup_licenze ?ls))) = 4"
    by code_simp
  from C7_leave_balance[OF wf y, of "\<lambda>s. None" 32] wf three show ?thesis
    by (simp only: total) simp
qed


subsection \<open>Manual entries\<close>

text \<open>
  The stores the script writes hold every record under its own date: the empty store
  does, and saving and deleting an entry keep it so. This is the hypothesis
  \<open>store_ok\<close> of the reconciliation theorems.
\<close>

lemma store_ok_empty: "store_ok []"
  by (simp add: store_ok_def)

lemma manual_giornata_data: "manual_giornata f = Some g \<Longrightarrow> data g = Some (addData f)"
  by (auto simp: manual_giornata_def Let_def split: if_splits option.splits prod.splits)

lemma store_ok_update:
  assumes "store_ok m" and "data g = Some k"
  shows "store_ok (AList.update k g m)"
proof -
  have "list_all (\<lambda>(k, e). data e = Some k) m" using assms(1) by (simp add: store_ok_def)
  then have "list_all (\<lambda>(k, e). data e = Some k) (AList.update k g m)"
    using assms(2) by (induction m) auto
  with assms(1) show ?thesis
    by (simp add: store_ok_def distinct_update)
qed

lemma store_ok_saveManualEntry:
  assumes "store_ok m" and "saveManualEntry f m = Some m'"
  shows "store_ok m'"
proof -
  from assms(2) obtain g where g: "manual_giornata f = Some g" and m': "m' = AList.update (addData f) g m"
    by (auto simp: saveManualEntry_def)
  from manual_giornata_data[OF g] assms(1) show ?thesis
    unfolding m' by (intro store_ok_update)
qed

lemma store_ok_deleteManualEntry: "store_ok m \<Longrightarrow> store_ok (deleteManualEntry k m)"
  by (simp add: store_ok_def deleteManualEntry_def distinct_delete)
    (simp add: AList.delete_eq list_all_iff)

lemma pow2_power_int: "pow2 e = power_int 2 e"
  by (simp add: pow2_def power_int_def inverse_eq_divide power_one_over)

lemma pow2_pos: "0 < pow2 e"
  by (simp add: pow2_power_int)

lemma pow2_diff: "pow2 (a - b) = pow2 a / pow2 b"
  by (simp add: pow2_power_int power_int_diff)

lemma pow2_nat: "0 \<le> e \<Longrightarrow> pow2 e = 2 ^ nat e"
  by (simp add: pow2_def)

lemma exponent_le:
  assumes "0 < x"
  shows "pow2 (exponent x) \<le> x"
proof -
  obtain p q where pq: "quotient_of x = (p, q)" by (cases "quotient_of x")
  then have q: "0 < q" by (rule quotient_of_denom_pos)
  from pq have x: "x = of_int p / of_int q" by (rule quotient_of_div)
  with assms q have p: "0 < p" by (simp add: zero_less_divide_iff)
  let ?k = "bitlen p - bitlen q"
  show ?thesis
  proof (cases "pow2 ?k \<le> x")
    case True
    then show ?thesis by (simp add: exponent_def pq)
  next
    case False
    have bp: "1 \<le> bitlen p" and bq: "1 \<le> bitlen q"
      using p q bitlen_eq_zero_iff[of p] bitlen_eq_zero_iff[of q] bitlen_nonneg[of p] bitlen_nonneg[of q]
      by linarith+
    from bitlen_bounds[OF p] have lo: "(2::int) ^ nat (bitlen p - 1) \<le> p" by simp
    from bitlen_bounds[OF q] have hi: "q < (2::int) ^ nat (bitlen q)" by simp
    have lo': "(2::rat) ^ nat (bitlen p - 1) \<le> of_int p"
      using lo by (metis of_int_le_iff of_int_numeral of_int_power)
    have hi': "(of_int q :: rat) \<le> 2 ^ nat (bitlen q)"
      using hi by (metis less_imp_le of_int_le_iff of_int_numeral of_int_power)
    have "pow2 (?k - 1) = pow2 ((bitlen p - 1) - bitlen q)" by (simp add: algebra_simps)
    also have "\<dots> = pow2 (bitlen p - 1) / pow2 (bitlen q)" by (rule pow2_diff)
    also have "\<dots> = 2 ^ nat (bitlen p - 1) / 2 ^ nat (bitlen q)"
      using bp bq by (simp add: pow2_nat)
    also have "\<dots> \<le> of_int p / of_int q"
      using lo' hi' q p by (intro frac_le) simp_all
    finally have "pow2 (?k - 1) \<le> x" by (simp add: x)
    with False show ?thesis by (simp add: exponent_def pq)
  qed
qed

lemma round_even_err: "\<bar>of_int (round_even y) - y\<bar> \<le> 1 / 2"
proof -
  have "of_int \<lfloor>y\<rfloor> \<le> y" "y < of_int \<lfloor>y\<rfloor> + 1" by linarith+
  then show ?thesis
    by (auto simp: round_even_def Let_def)
qed

text \<open>The relative error of a rounding is at most half a unit in the last place.\<close>

lemma fl_err: "\<bar>fl x - x\<bar> \<le> \<bar>x\<bar> / 2 ^ 53"
proof (cases "x = 0")
  case True
  then show ?thesis by (simp add: fl_def)
next
  case False
  let ?e = "exponent \<bar>x\<bar>"
  let ?u = "pow2 (?e - 52)"
  have u: "0 < ?u" by (rule pow2_pos)
  have le: "pow2 ?e \<le> \<bar>x\<bar>" using False by (intro exponent_le) simp
  have ue: "?u = pow2 ?e / 2 ^ 52" by (simp add: pow2_diff pow2_nat)
  have "fl x - x = (of_int (round_even (x / ?u)) - x / ?u) * ?u"
    using False u by (simp add: fl_def Let_def left_diff_distrib)
  then have "\<bar>fl x - x\<bar> = \<bar>of_int (round_even (x / ?u)) - x / ?u\<bar> * ?u"
    using u by (simp add: abs_mult)
  also have "\<dots> \<le> 1 / 2 * ?u"
    using u round_even_err[of "x / ?u"] by (intro mult_right_mono) simp_all
  also have "\<dots> = pow2 ?e / 2 ^ 53" by (simp add: ue)
  also have "\<dots> \<le> \<bar>x\<bar> / 2 ^ 53" using le by (simp add: divide_right_mono)
  finally show ?thesis .
qed

lemma fl_err_abs:
  assumes "\<bar>x\<bar> \<le> B"
  shows "\<bar>fl x - x\<bar> \<le> B / 2 ^ 53"
proof -
  have "\<bar>fl x - x\<bar> \<le> \<bar>x\<bar> / 2 ^ 53" by (rule fl_err)
  also have "\<dots> \<le> B / 2 ^ 53" using assms by (simp add: divide_right_mono)
  finally show ?thesis .
qed

text \<open>A number within a sixth of a whole number of thirds rounds as that number of
  thirds does.\<close>

lemma round_thirds:
  fixes k :: int and y :: rat
  assumes "\<bar>y - of_int k / 3\<bar> < 1 / 6"
  shows "Math_round y = (2 * k + 3) div 6"
proof -
  define T where "T = (2 * k + 3) div 6"
  define r where "r = (2 * k + 3) mod 6"
  have eq: "2 * k + 3 = 6 * T + r" by (simp add: T_def r_def)
  have r: "1 \<le> r" "r \<le> 5" unfolding r_def by presburger+
  have "(of_int (2 * k + 3) :: rat) = of_int (6 * T + r)" by (simp only: eq)
  then have eq': "2 * (of_int k :: rat) + 3 = 6 * of_int T + of_int r" by simp
  have r': "(1::rat) \<le> of_int r" "(of_int r :: rat) \<le> 5" using r by simp_all
  from assms have y: "of_int k / 3 - 1 / 6 < y" "y < of_int k / 3 + 1 / 6"
    by linarith+
  have "of_int T \<le> y + 1 / 2" "y + 1 / 2 < of_int T + 1"
    using eq' r' y by linarith+
  then have "\<lfloor>y + 1 / 2\<rfloor> = T" by (intro floor_unique) simp_all
  then show ?thesis by (simp add: Math_round_def T_def)
qed

lemma abs_min_le: "\<bar>min a c - min b c\<bar> \<le> \<bar>a - b\<bar>" for a b c :: rat
  by (simp add: min_def abs_if)

lemma abs_max_le: "\<bar>max c a - max c b\<bar> \<le> \<bar>a - b\<bar>" for a b c :: rat
  by (simp add: max_def abs_if)

lemma combine_errors:
  fixes y s t E :: rat
  assumes "\<bar>s - t\<bar> \<le> 103 * E" and "\<bar>y - s * 100\<bar> \<le> 4900 * E"
    and "0 < E" and "30000 * E < 1 / 6"
  shows "\<bar>y - t * 100\<bar> < 1 / 6"
  using assms by linarith

text \<open>The three roundings of \<open>saveManualEntry\<close> for a duration of \<open>m\<close> minutes, less
  than two days.\<close>

lemma hundredths:
  fixes m :: int
  assumes "0 \<le> m" and "m < 2880"
  defines "d \<equiv> fl (of_int m / 60)"
  shows "Math_round (fl (d * 100)) = (2 * (5 * m) + 3) div 6"
    and "Math_round (fl (min d 6 * 100)) = (2 * min (5 * m) 1800 + 3) div 6"
    and "Math_round (fl (max 0 (fl (d - 6)) * 100)) = (2 * max 0 (5 * m - 1800) + 3) div 6"
proof -
  define E :: rat where "E = 1 / 2 ^ 53"
  define A :: rat where "A = of_int m / 60"
  have E: "0 < E" "30000 * E < 1 / 6" by (simp_all add: E_def)
  have A: "0 \<le> A" "A \<le> 48" using assms(1,2) by (simp_all add: A_def)
  have "\<bar>d - A\<bar> \<le> 48 / 2 ^ 53"
    unfolding d_def A_def[symmetric] using A by (intro fl_err_abs) simp
  then have dA: "\<bar>d - A\<bar> \<le> 48 * E" by (simp add: E_def)
  then have d49: "\<bar>d\<bar> \<le> 49" using A E by linarith
  \<comment> \<open>the total\<close>
  have "\<bar>fl (d * 100) - d * 100\<bar> \<le> 4900 / 2 ^ 53"
    using d49 by (intro fl_err_abs) (simp add: abs_mult)
  then have "\<bar>fl (d * 100) - d * 100\<bar> \<le> 4900 * E" by (simp add: E_def)
  with dA E have "\<bar>fl (d * 100) - A * 100\<bar> < 1 / 6" by linarith
  moreover have "A * 100 = of_int (5 * m) / 3" by (simp add: A_def)
  ultimately have "\<bar>fl (d * 100) - of_int (5 * m) / 3\<bar> < 1 / 6" by simp
  then show "Math_round (fl (d * 100)) = (2 * (5 * m) + 3) div 6" by (rule round_thirds)
  \<comment> \<open>the ordinary hours\<close>
  have oA: "\<bar>min d 6 - min A 6\<bar> \<le> 48 * E"
    using abs_min_le[of d 6 A] dA by linarith
  have o49: "\<bar>min d 6\<bar> \<le> 49" using d49 by (auto simp: min_def abs_if split: if_splits)
  have "\<bar>fl (min d 6 * 100) - min d 6 * 100\<bar> \<le> 4900 / 2 ^ 53"
    using o49 by (intro fl_err_abs) (simp add: abs_mult)
  then have "\<bar>fl (min d 6 * 100) - min d 6 * 100\<bar> \<le> 4900 * E" by (simp add: E_def)
  with oA E have "\<bar>fl (min d 6 * 100) - min A 6 * 100\<bar> < 1 / 6" by linarith
  moreover have "min A 6 * 100 = of_int (min (5 * m) 1800) / 3"
    by (simp add: A_def min_def)
  ultimately have "\<bar>fl (min d 6 * 100) - of_int (min (5 * m) 1800) / 3\<bar> < 1 / 6" by simp
  then show "Math_round (fl (min d 6 * 100)) = (2 * min (5 * m) 1800 + 3) div 6"
    by (rule round_thirds)
  \<comment> \<open>the overtime\<close>
  have "\<bar>d - 6\<bar> \<le> 55" using d49 by linarith
  then have "\<bar>fl (d - 6) - (d - 6)\<bar> \<le> 55 / 2 ^ 53" by (rule fl_err_abs)
  then have z: "\<bar>fl (d - 6) - (d - 6)\<bar> \<le> 55 * E" by (simp add: E_def)
  with dA have zA: "\<bar>fl (d - 6) - (A - 6)\<bar> \<le> 103 * E" by linarith
  have sA: "\<bar>max 0 (fl (d - 6)) - max 0 (A - 6)\<bar> \<le> 103 * E"
    using abs_max_le[of 0 "fl (d - 6)" "A - 6"] zA by linarith
  have "\<bar>max 0 (A - 6)\<bar> \<le> 42" using A by (simp add: max_def abs_if)
  with sA E have s49: "\<bar>max 0 (fl (d - 6))\<bar> \<le> 49" by linarith
  have "\<bar>fl (max 0 (fl (d - 6)) * 100) - max 0 (fl (d - 6)) * 100\<bar> \<le> 4900 / 2 ^ 53"
    using s49 by (intro fl_err_abs) (simp add: abs_mult)
  then have "\<bar>fl (max 0 (fl (d - 6)) * 100) - max 0 (fl (d - 6)) * 100\<bar> \<le> 4900 * E"
    by (simp add: E_def)
  with sA E have "\<bar>fl (max 0 (fl (d - 6)) * 100) - max 0 (A - 6) * 100\<bar> < 1 / 6"
    by (intro combine_errors[where E = E and s = "max 0 (fl (d - 6))"]) simp_all
  moreover have "max 0 (A - 6) * 100 = of_int (max 0 (5 * m - 1800)) / 3"
    by (simp add: A_def max_def)
  ultimately have "\<bar>fl (max 0 (fl (d - 6)) * 100) - of_int (max 0 (5 * m - 1800)) / 3\<bar> < 1 / 6"
    by simp
  then show "Math_round (fl (max 0 (fl (d - 6)) * 100)) = (2 * max 0 (5 * m - 1800) + 3) div 6"
    by (rule round_thirds)
qed

lemma minuti_bounds:
  assumes "hI < 24" "mI < 60" "hF < 24" "mF < 60"
  shows "0 \<le> minuti (hI, mI) (hF, mF)" and "minuti (hI, mI) (hF, mF) < 2880"
  using assms by (auto simp: minuti_def Let_def)

lemma centesimi_div: "centesimi inizio fine = (2 * (5 * minuti inizio fine) + 3) div 6"
  unfolding centesimi_def
  by (rule round_thirds) simp

lemma split_hundredths:
  fixes m :: int
  defines "T \<equiv> (2 * (5 * m) + 3) div 6"
  shows "(2 * min (5 * m) 1800 + 3) div 6 = min T 600"
    and "(2 * max 0 (5 * m - 1800) + 3) div 6 = max 0 (T - 600)"
    and "min T 600 + max 0 (T - 600) = T"
  unfolding T_def by (auto simp: min_def max_def)

text \<open>
  C10, as stated, fails in the arithmetic of doubles. A service from 00:00 to 08:07
  is stored with 6 ordinary hours, the double of 2.12 as overtime and the double of
  8.12 as total; the sum of the first two is not the third, neither as a sum of
  doubles (it is 8.120000000000001) nor as an exact sum.
\<close>

theorem C10_sum_of_doubles_counterexample:
  "map_option ore_ordinarie (manual_giornata (presenza ''00:00'' ''08:07'')) = Some 6
   \<and> map_option ore_straordinario (manual_giornata (presenza ''00:00'' ''08:07''))
       = Some (fl (212 / 100))
   \<and> map_option ore_totali (manual_giornata (presenza ''00:00'' ''08:07''))
       = Some (fl (812 / 100))
   \<and> fl (6 + fl (212 / 100)) \<noteq> fl (812 / 100)
   \<and> 6 + fl (212 / 100) \<noteq> fl (812 / 100)"
proof -
  have p: "parse_time ''00:00'' = Some (0, 0)" "parse_time ''08:07'' = Some (8, 7)"
    by code_simp+
  have m: "minuti (0, 0) (8, 7) = 487" by code_simp
  have t: "round2 (fl (487 / 60)) = fl (812 / 100)" by code_simp
  have o: "round2 (min (fl (487 / 60)) 6) = 6" by code_simp
  have s: "round2 (max 0 (fl (fl (487 / 60) - 6))) = fl (212 / 100)" by code_simp
  have n: "fl (6 + fl (212 / 100)) \<noteq> fl (812 / 100)" "6 + fl (212 / 100) \<noteq> fl (812 / 100)"
    by code_simp+
  show ?thesis
    using n by (simp add: manual_giornata_def presenza_def Let_def p m t o s)
qed

text \<open>
  C10, amended. For a manual entry that is not an absence, with start and end times
  of day \<open>HH:MM\<close>: let \<open>T\<close> be the duration in hundredths of an hour (computed
  exactly, rounded, a tie upwards). The entry is saved, and the total, the ordinary
  hours and the overtime it stores are the doubles of \<open>T / 100\<close>,
  \<open>min T 600 / 100\<close> and \<open>max 0 (T - 600) / 100\<close>: the duration, its part up to 6
  hours and its part beyond 6 hours, each with two decimals. The hundredths add up
  exactly, \<open>min T 600 + max 0 (T - 600) = T\<close>. When the end is earlier than the
  start, the minutes are counted with 24 hours added to the end.
\<close>

theorem C10_manual_entry_hundredths:
  assumes "addTipo f \<noteq> ''ASSENZA''"
    and "parse_time (addOraInizio f) = Some (hI, mI)"
    and "parse_time (addOraFine f) = Some (hF, mF)"
    and "hI < 24" and "mI < 60" and "hF < 24" and "mF < 60"
  shows "\<exists>g. manual_giornata f = Some g
      \<and> saveManualEntry f manualEntries = Some (AList.update (addData f) g manualEntries)
      \<and> ore_totali g = fl (of_int (centesimi (hI, mI) (hF, mF)) / 100)
      \<and> ore_ordinarie g = fl (of_int (min (centesimi (hI, mI) (hF, mF)) 600) / 100)
      \<and> ore_straordinario g = fl (of_int (max 0 (centesimi (hI, mI) (hF, mF) - 600)) / 100)
      \<and> min (centesimi (hI, mI) (hF, mF)) 600 + max 0 (centesimi (hI, mI) (hF, mF) - 600)
          = centesimi (hI, mI) (hF, mF)
      \<and> minuti (hI, mI) (hF, mF)
          = (if int hF * 60 + int mF < int hI * 60 + int mI
             then int hF * 60 + int mF + 24 * 60 else int hF * 60 + int mF)
            - (int hI * 60 + int mI)"
proof -
  let ?m = "minuti (hI, mI) (hF, mF)"
  let ?d = "fl (of_int ?m / 60)"
  let ?T = "centesimi (hI, mI) (hF, mF)"
  note b = minuti_bounds[OF assms(4-7)]
  note h = hundredths[OF b]
  note sp = split_hundredths[of ?m, folded centesimi_div]
  have t: "round2 ?d = fl (of_int ?T / 100)"
    by (simp only: round2_def h(1) centesimi_div)
  have o: "round2 (min ?d 6) = fl (of_int (min ?T 600) / 100)"
    by (simp only: round2_def h(2) sp(1))
  have s: "round2 (max 0 (fl (?d - 6))) = fl (of_int (max 0 (?T - 600)) / 100)"
    by (simp only: round2_def h(3) sp(2))
  have mid: "?m = (if int hF * 60 + int mF < int hI * 60 + int mI
             then int hF * 60 + int mF + 24 * 60 else int hF * 60 + int mF)
            - (int hI * 60 + int mI)"
    by (simp add: minuti_def Let_def)
  obtain g where g: "manual_giornata f = Some g" and "ore_totali g = round2 ?d"
    and "ore_ordinarie g = round2 (min ?d 6)"
    and "ore_straordinario g = round2 (max 0 (fl (?d - 6)))"
    using assms(1-3) by (simp add: manual_giornata_def Let_def)
  with t o s sp(3) mid show ?thesis
    by (simp only: saveManualEntry_def option.map) blast
qed

theorem C10_manual_entry_hundredths_witness:
  "addTipo (presenza ''22:00'' ''06:00'') \<noteq> ''ASSENZA''
   \<and> parse_time (addOraInizio (presenza ''22:00'' ''06:00'')) = Some (22, 0)
   \<and> parse_time (addOraFine (presenza ''22:00'' ''06:00'')) = Some (6, 0)
   \<and> (22::nat) < 24 \<and> (0::nat) < 60 \<and> (6::nat) < 24
   \<and> minuti (22, 0) (6, 0) = 480
   \<and> centesimi (22, 0) (6, 0) = 800
   \<and> (\<exists>g. manual_giornata (presenza ''22:00'' ''06:00'') = Some g
          \<and> ore_totali g = 8 \<and> ore_ordinarie g = 6 \<and> ore_straordinario g = 2)"
proof -
  let ?f = "presenza ''22:00'' ''06:00''"
  have ty: "addTipo ?f \<noteq> ''ASSENZA''" by (simp add: presenza_def)
  have p1: "parse_time (addOraInizio ?f) = Some (22, 0)"
    and p2: "parse_time (addOraFine ?f) = Some (6, 0)" by code_simp+
  have m: "minuti (22, 0) (6, 0) = 480" by code_simp
  have c: "centesimi (22, 0) (6, 0) = 800" by code_simp
  have v: "fl (800 / 100) = 8" "fl (600 / 100) = 6" "fl (200 / 100) = 2" by code_simp+
  from C10_manual_entry_hundredths[OF ty p1 p2, of "[]"]
  obtain g where "manual_giornata ?f = Some g" "ore_totali g = fl (800 / 100)"
    "ore_ordinarie g = fl (600 / 100)" "ore_straordinario g = fl (200 / 100)"
    by (auto simp: c)
  then have "\<exists>g. manual_giornata ?f = Some g
          \<and> ore_totali g = 8 \<and> ore_ordinarie g = 6 \<and> ore_straordinario g = 2"
    by (simp only: v) blast
  with ty p1 p2 m c show ?thesis by simp
qed

end
